theory Spec2Isabelle
  imports Complex_Main "HOL-Library.Word"
begin

section \<open>Configuration constants\<close>

definition SAMPLE_RATE :: int where
  "SAMPLE_RATE = 250000"

definition CHUNK_SIZE :: nat where
  "CHUNK_SIZE = 4096"

definition LAMBDA_L1 :: real where
  "LAMBDA_L1 = 0.141592653589793238462643383279502884197169399375105820974944592307816406286"

definition EPSILON :: real where
  "EPSILON = 1 / 1000"

definition DEFAULT_FREQ :: int where
  "DEFAULT_FREQ = 102000000"

definition PORT :: nat where
  "PORT = 9000"

section \<open>Sample framing\<close>

text \<open>
  The slice \<^verbatim>\<open>a[::2]\<close> of a one-dimensional array keeps the elements at the
  positions 0, 2, 4, ...; the slice \<^verbatim>\<open>a[1::2]\<close> is the same slice of the array
  without its first element.
\<close>

fun stride2 :: "'a list \<Rightarrow> 'a list" where
  "stride2 [] = []"
| "stride2 [a] = [a]"
| "stride2 (a # b # rest) = a # stride2 rest"

text \<open>
  Lines 102 to 105 of \<^verbatim>\<open>iq_processing_loop\<close>. The bytes are read as
  \<^verbatim>\<open>uint8\<close> and converted to \<^verbatim>\<open>float32\<close>, which is exact; so is the
  subtraction of 127.5 (a half-integer of magnitude at most 127.5). The division is the one
  operation that rounds, and \<open>f32\<close> stands for that rounding to the nearest
  \<^verbatim>\<open>float32\<close>.
\<close>

definition frame_iq :: "(real \<Rightarrow> real) \<Rightarrow> 8 word list \<Rightarrow> real list \<times> real list" where
  "frame_iq f32 raw =
     (let iq = map (\<lambda>b. f32 ((real (unat b) - 127.5) / 127.5)) raw;
          i = stride2 iq;
          q = stride2 (drop 1 iq)
      in (i, q))"

section \<open>The denoiser\<close>

text \<open>
  Arrays of floats are lists of reals; the arithmetic of numpy on two arrays of one shape is
  elementwise. Every call below is on arrays of one length (\<open>trajectory_length\<close>).
\<close>

definition smooth_l1 :: "real list \<Rightarrow> real list" where
  "smooth_l1 x = map (\<lambda>v. sqrt (v\<^sup>2 + EPSILON\<^sup>2)) x"

definition cost_function_factory :: "real list \<Rightarrow> real list \<Rightarrow> real" where
  "cost_function_factory target x =
     0.5 * sum_list (map (\<lambda>d. d\<^sup>2) (map2 (-) x target)) + LAMBDA_L1 * sum_list (smooth_l1 x)"

definition gradient_factory :: "real list \<Rightarrow> real list \<Rightarrow> real list" where
  "gradient_factory target x =
     map2 (+) (map2 (-) x target)
       (map2 (/) (map (\<lambda>v. LAMBDA_L1 * v) x) (map (\<lambda>v. sqrt (v\<^sup>2 + EPSILON\<^sup>2)) x))"

definition zeros_like :: "real list \<Rightarrow> real list" where
  "zeros_like data = replicate (length data) 0"

subsection \<open>The solver\<close>

text \<open>
  Modelled from the spec: the solver \<^verbatim>\<open>scipy.optimize.minimize\<close> (method L-BFGS-B) is
  a library function whose code is not part of the sources. The specification asks for
  "any gradient-based bound-free convex minimizer (quasi-Newton with line search is the
  reference choice) initialized at the zero vector, run for a fixed small iteration cap",
  where "no error is raised on non-convergence; the best iterate found within the cap is
  returned". The model is a loop over iterates. How the next iterate is chosen is left open:
  an update rule sees the objective, its gradient and the iterates so far, and either stops
  or gives the displacement of every coordinate. The loop stops when the rule stops or when
  the cap is reached, and the result is the iterate of least cost among those visited (the
  earliest one on a tie).
\<close>

type_synonym update_rule =
  "(real list \<Rightarrow> real) \<Rightarrow> (real list \<Rightarrow> real list) \<Rightarrow> real list list \<Rightarrow> (nat \<Rightarrow> real) option"

record optimize_result =
  opt_x :: "real list"
  success :: bool
  nit :: nat

definition advance :: "real list \<Rightarrow> (nat \<Rightarrow> real) \<Rightarrow> real list" where
  "advance xk d = map (\<lambda>i. xk ! i + d i) [0..<length xk]"

fun iterate ::
  "update_rule \<Rightarrow> (real list \<Rightarrow> real) \<Rightarrow> (real list \<Rightarrow> real list) \<Rightarrow> nat \<Rightarrow>
   real list list \<Rightarrow> real list \<Rightarrow> real list list \<times> bool" where
  "iterate rule f jac 0 earlier xk = (earlier @ [xk], False)"
| "iterate rule f jac (Suc k) earlier xk =
     (case rule f jac (earlier @ [xk]) of
        None \<Rightarrow> (earlier @ [xk], True)
      | Some d \<Rightarrow> iterate rule f jac k (earlier @ [xk]) (advance xk d))"

fun best_iterate :: "(real list \<Rightarrow> real) \<Rightarrow> real list \<Rightarrow> real list list \<Rightarrow> real list" where
  "best_iterate f b [] = b"
| "best_iterate f b (y # ys) = best_iterate f (if f y < f b then y else b) ys"

definition trajectory ::
  "update_rule \<Rightarrow> (real list \<Rightarrow> real) \<Rightarrow> real list \<Rightarrow> (real list \<Rightarrow> real list) \<Rightarrow> nat \<Rightarrow>
   real list list" where
  "trajectory rule f x0 jac maxiter = fst (iterate rule f jac maxiter [] x0)"

definition minimize ::
  "update_rule \<Rightarrow> (real list \<Rightarrow> real) \<Rightarrow> real list \<Rightarrow> (real list \<Rightarrow> real list) \<Rightarrow> nat \<Rightarrow>
   optimize_result" where
  "minimize rule f x0 jac maxiter =
     (case iterate rule f jac maxiter [] x0 of
        (visited, converged) \<Rightarrow>
          \<lparr>opt_x = best_iterate f x0 visited, success = converged, nit = length visited - 1\<rparr>)"

text \<open>The result record of the call in \<^verbatim>\<open>denoise_vector\<close>, and the iterates of that call.\<close>

definition denoise_result :: "update_rule \<Rightarrow> real list \<Rightarrow> optimize_result" where
  "denoise_result rule data =
     minimize rule (cost_function_factory data) (zeros_like data) (gradient_factory data) 30"

definition denoise_trajectory :: "update_rule \<Rightarrow> real list \<Rightarrow> real list list" where
  "denoise_trajectory rule data =
     trajectory rule (cost_function_factory data) (zeros_like data) (gradient_factory data) 30"

definition denoise_vector :: "update_rule \<Rightarrow> real list \<Rightarrow> real list" where
  "denoise_vector rule data =
     (let x0 = zeros_like data;
          result = minimize rule (cost_function_factory data) x0 (gradient_factory data) 30
      in opt_x result)"


section \<open>Processes, sockets and the shared state\<close>

text \<open>
  What the program does to the outside world is recorded as a trace of events, in the order
  of the calls. A process handle is the index of the process in the order of creation, and
  so is a socket handle. The state of the processes and of the sockets is a function of the
  trace.
\<close>

datatype exn =
    BrokenPipeError
  | ConnectionResetError
  | ConnectionAbortedError
  | TimeoutError
  | ValueError
  | OverflowError
  | AttributeError

datatype message =
    Starting_rtl_sdr int
  | Waiting_for_connection nat
  | Connected
  | Changing_frequency int
  | Disconnected
  | Invalid_input
  | Exiting

datatype event =
    Popen nat int
  | Kill nat
  | Wait nat
  | Read nat nat
  | Socket nat
  | Bind nat nat
  | Listen nat
  | Accept nat nat
  | Dealloc nat
  | Sendall nat "complex list"
  | Close nat
  | Print message
  | Exit int

datatype proc_status = Running | Killed | Reaped

datatype sock_status = Opened | Closed

text \<open>
  \<^verbatim>\<open>Popen\<close> creates a running process; \<^verbatim>\<open>kill\<close> ends a running process and does
  nothing to one that has ended; after \<^verbatim>\<open>wait\<close> has returned the process is reaped.
\<close>

fun os_proc :: "proc_status list \<Rightarrow> event \<Rightarrow> proc_status list" where
  "os_proc ps (Popen h f) = ps @ [Running]"
| "os_proc ps (Kill h) = (if h < length ps \<and> ps ! h = Running then ps[h := Killed] else ps)"
| "os_proc ps (Wait h) = ps[h := Reaped]"
| "os_proc ps _ = ps"

text \<open>
  \<^verbatim>\<open>socket\<close> and \<^verbatim>\<open>accept\<close> each create an open socket; \<^verbatim>\<open>close\<close> closes one,
  and so does the release of a socket object that nothing refers to any more.
\<close>

fun os_sock :: "sock_status list \<Rightarrow> event \<Rightarrow> sock_status list" where
  "os_sock ss (Socket s) = ss @ [Opened]"
| "os_sock ss (Accept s c) = ss @ [Opened]"
| "os_sock ss (Close c) = ss[c := Closed]"
| "os_sock ss (Dealloc s) = ss[s := Closed]"
| "os_sock ss _ = ss"

definition procs_after :: "event list \<Rightarrow> proc_status list" where
  "procs_after tr = foldl os_proc [] tr"

definition socks_after :: "event list \<Rightarrow> sock_status list" where
  "socks_after tr = foldl os_sock [] tr"

definition running_in :: "proc_status list \<Rightarrow> nat list" where
  "running_in ps = filter (\<lambda>h. ps ! h = Running) [0..<length ps]"

definition open_in :: "sock_status list \<Rightarrow> nat list" where
  "open_in ss = filter (\<lambda>s. ss ! s = Opened) [0..<length ss]"

definition running_procs :: "event list \<Rightarrow> nat list" where
  "running_procs tr = running_in (procs_after tr)"

definition open_socks :: "event list \<Rightarrow> nat list" where
  "open_socks tr = open_in (socks_after tr)"

fun popen_freqs :: "event list \<Rightarrow> int list" where
  "popen_freqs [] = []"
| "popen_freqs (Popen h f # tr) = f # popen_freqs tr"
| "popen_freqs (e # tr) = popen_freqs tr"

fun sent_payloads :: "event list \<Rightarrow> complex list list" where
  "sent_payloads [] = []"
| "sent_payloads (Sendall c payload # tr) = payload # sent_payloads tr"
| "sent_payloads (e # tr) = sent_payloads tr"

fun listen_calls :: "event list \<Rightarrow> nat list" where
  "listen_calls [] = []"
| "listen_calls (Listen s # tr) = s # listen_calls tr"
| "listen_calls (e # tr) = listen_calls tr"

fun close_calls :: "event list \<Rightarrow> nat list" where
  "close_calls [] = []"
| "close_calls (Close c # tr) = c # close_calls tr"
| "close_calls (e # tr) = close_calls tr"

text \<open>The module's globals, and the trace so far.\<close>

record world =
  current_freq :: int
  proc :: "nat option"
  conn :: "nat option"
  freq_queue :: "int list"
  terminate_flag :: bool
  trace :: "event list"

definition initial_world :: world where
  "initial_world =
     \<lparr>current_freq = DEFAULT_FREQ, proc = None, conn = None, freq_queue = [],
      terminate_flag = False, trace = []\<rparr>"

definition emit :: "event \<Rightarrow> world \<Rightarrow> world" where
  "emit e w = w\<lparr>trace := trace w @ [e]\<rparr>"

definition start_rtl_sdr :: "int \<Rightarrow> world \<Rightarrow> nat \<times> world" where
  "start_rtl_sdr freq_hz w =
     (let w1 = emit (Print (Starting_rtl_sdr freq_hz)) w;
          h = length (procs_after (trace w1))
      in (h, emit (Popen h freq_hz) w1))"

text \<open>
  The listening socket \<^verbatim>\<open>s\<close> is a local of \<^verbatim>\<open>start_tcp_server\<close>: when the function
  returns, nothing refers to it any more, and the interpreter closes it.
\<close>

definition start_tcp_server :: "nat \<Rightarrow> world \<Rightarrow> nat \<times> world" where
  "start_tcp_server port w =
     (let s = length (socks_after (trace w));
          w1 = emit (Socket s) w;
          w2 = emit (Bind s port) w1;
          w3 = emit (Listen s) w2;
          w4 = emit (Print (Waiting_for_connection port)) w3;
          c = length (socks_after (trace w4));
          w5 = emit (Accept s c) w4;
          w6 = emit (Print Connected) w5
      in (c, emit (Dealloc s) w6))"

section \<open>The frequency input thread\<close>

text \<open>
  A string of the interpreter is the list of its code points; \<open>codepoints\<close> gives the
  code points of a string of ASCII characters.
\<close>

definition codepoints :: "string \<Rightarrow> nat list" where
  "codepoints s = map of_char s"

text \<open>
  \<^verbatim>\<open>float\<close> of a string and the product of two floats are the interpreter's; they are
  parameters of the model, together with the rounding to \<^verbatim>\<open>float32\<close> and the update
  rule of the solver. A float is a real number, an infinity or not a number.
\<close>

datatype pyfloat = Finite real | PosInf | NegInf | NaN

record platform =
  float_of_str :: "nat list \<Rightarrow> exn + pyfloat"
  float_mul :: "pyfloat \<Rightarrow> pyfloat \<Rightarrow> pyfloat"
  float32 :: "real \<Rightarrow> real"
  lbfgsb :: update_rule

text \<open>\<^verbatim>\<open>int\<close> of a float drops the fraction; it raises on an infinity and on a NaN.\<close>

fun py_int :: "pyfloat \<Rightarrow> exn + int" where
  "py_int (Finite r) = Inr (if 0 \<le> r then \<lfloor>r\<rfloor> else \<lceil>r\<rceil>)"
| "py_int PosInf = Inl OverflowError"
| "py_int NegInf = Inl OverflowError"
| "py_int NaN = Inl ValueError"

text \<open>
  The code points that \<^verbatim>\<open>str.strip\<close> removes from both ends of a string, those for
  which \<^verbatim>\<open>str.isspace\<close> holds: the ASCII controls 9 to 13 and 28 to 31, the space,
  U+0085, U+00A0, U+1680, U+2000 to U+200A, U+2028, U+2029, U+202F, U+205F and U+3000.
\<close>

definition is_space :: "nat \<Rightarrow> bool" where
  "is_space c =
     (9 \<le> c \<and> c \<le> 13 \<or> 28 \<le> c \<and> c \<le> 32 \<or> c = 133 \<or> c = 160 \<or> c = 5760
      \<or> 8192 \<le> c \<and> c \<le> 8202 \<or> c = 8232 \<or> c = 8233 \<or> c = 8239 \<or> c = 8287
      \<or> c = 12288)"

definition strip :: "nat list \<Rightarrow> nat list" where
  "strip s = rev (dropWhile is_space (rev (dropWhile is_space s)))"

text \<open>One pass of the body of the loop of \<^verbatim>\<open>frequency_input_loop\<close>, on the line that
  \<^verbatim>\<open>input\<close> returned.\<close>

definition frequency_input :: "platform \<Rightarrow> nat list \<Rightarrow> world \<Rightarrow> world" where
  "frequency_input P line w =
     (let user_input = strip line
      in if user_input = [] then w
         else
           (case float_of_str P user_input of
              Inl e \<Rightarrow> emit (Print Invalid_input) w
            | Inr v \<Rightarrow>
                (case py_int (float_mul P v (Finite 1000000)) of
                   Inl e \<Rightarrow> emit (Print Invalid_input) w
                 | Inr new_freq \<Rightarrow> w\<lparr>freq_queue := freq_queue w @ [new_freq]\<rparr>)))"

fun frequency_input_loop :: "platform \<Rightarrow> nat list list \<Rightarrow> world \<Rightarrow> world" where
  "frequency_input_loop P [] w = w"
| "frequency_input_loop P (line # rest) w =
     (if terminate_flag w then w else frequency_input_loop P rest (frequency_input P line w))"

section \<open>The processing loop\<close>

definition proc_kill :: "nat \<Rightarrow> world \<Rightarrow> world" where
  "proc_kill p w = emit (Kill p) w"

definition proc_wait :: "nat \<Rightarrow> world \<Rightarrow> world" where
  "proc_wait p w = emit (Wait p) w"

definition conn_close :: "nat \<Rightarrow> world \<Rightarrow> world" where
  "conn_close c w = emit (Close c) w"

text \<open>
  Lines 89 to 93: the body of \<^verbatim>\<open>if new_freq != current_freq\<close>. A method call on a
  global that is still \<^verbatim>\<open>None\<close> raises.
\<close>

definition change_frequency :: "int \<Rightarrow> world \<Rightarrow> exn + world" where
  "change_frequency new_freq w =
     (let w1 = emit (Print (Changing_frequency new_freq)) w;
          w2 = w1\<lparr>current_freq := new_freq\<rparr>
      in case proc w2 of
           None \<Rightarrow> Inl AttributeError
         | Some p \<Rightarrow>
             (let w3 = proc_kill p w2;
                  w4 = proc_wait p w3;
                  (p', w5) = start_rtl_sdr (current_freq w4) w4
              in Inr (w5\<lparr>proc := Some p'\<rparr>)))"

text \<open>
  Lines 86 to 93: the loop that empties the queue. The first argument is the content of the
  queue, oldest request first; each pass takes one request off the queue.
\<close>

fun drain :: "int list \<Rightarrow> world \<Rightarrow> exn + world" where
  "drain [] w = Inr w"
| "drain (new_freq # rest) w =
     (let w1 = w\<lparr>freq_queue := rest\<rparr>
      in if new_freq \<noteq> current_freq w1 then
           (case change_frequency new_freq w1 of
              Inl e \<Rightarrow> Inl e
            | Inr w2 \<Rightarrow> drain rest w2)
         else drain rest w1)"

definition check_frequency :: "world \<Rightarrow> exn + world" where
  "check_frequency w = drain (freq_queue w) w"

text \<open>
  Lines 111 to 116: the send and its handler. The outcome of \<^verbatim>\<open>sendall\<close> is the
  environment's: \<open>None\<close> when the bytes were sent, the exception otherwise. The payload is
  the list of complex samples; \<^verbatim>\<open>tobytes\<close> is not modelled.
\<close>

definition deliver :: "exn option \<Rightarrow> complex list \<Rightarrow> world \<Rightarrow> exn + world" where
  "deliver outcome payload w =
     (case conn w of
        None \<Rightarrow> Inl AttributeError
      | Some c \<Rightarrow>
          (let w1 = emit (Sendall c payload) w
           in case outcome of
                None \<Rightarrow> Inr w1
              | Some e \<Rightarrow>
                  if e = BrokenPipeError \<or> e = ConnectionResetError then
                    (let w2 = emit (Print Disconnected) w1;
                         w3 = conn_close c w2;
                         (c', w4) = start_tcp_server PORT w3
                     in Inr (w4\<lparr>conn := Some c'\<rparr>))
                  else Inl e))"

text \<open>
  What one pass of the loop gets from the environment: the bytes that the pipe of the
  capture process yields to this read before its end, and the outcome of the send.
\<close>

record input =
  pipe_bytes :: "8 word list"
  send_outcome :: "exn option"

definition denoised_payload :: "platform \<Rightarrow> 8 word list \<Rightarrow> complex list" where
  "denoised_payload P raw =
     (let (i, q) = frame_iq (float32 P) raw;
          i_d = denoise_vector (lbfgsb P) i;
          q_d = denoise_vector (lbfgsb P) q;
          iq_denoised = map2 Complex i_d q_d
      in map (\<lambda>z. Complex (float32 P (Re z)) (float32 P (Im z))) iq_denoised)"

text \<open>Lines 84 to 116: one pass of the loop of \<^verbatim>\<open>iq_processing_loop\<close>.\<close>

definition iteration :: "platform \<Rightarrow> input \<Rightarrow> world \<Rightarrow> exn + world" where
  "iteration P inp w =
     (case check_frequency w of
        Inl e \<Rightarrow> Inl e
      | Inr w1 \<Rightarrow>
          (case proc w1 of
             None \<Rightarrow> Inl AttributeError
           | Some p \<Rightarrow>
               (let raw = take (CHUNK_SIZE * 2) (pipe_bytes inp);
                    w2 = emit (Read p (length raw)) w1
                in if length raw < CHUNK_SIZE * 2 then Inr w2
                   else deliver (send_outcome inp) (denoised_payload P raw) w2)))"

text \<open>Lines 80 and 81.\<close>

definition startup :: "world \<Rightarrow> world" where
  "startup w =
     (let (p, w1) = start_rtl_sdr (current_freq w) w;
          w2 = w1\<lparr>proc := Some p\<rparr>;
          (c, w3) = start_tcp_server PORT w2
      in w3\<lparr>conn := Some c\<rparr>)"

text \<open>
  The two threads run interleaved: a schedule lists, in order, the lines that the input
  thread reads and the passes of the processing loop. Both loops test the flag first.
\<close>

datatype action = Operator "nat list" | Iterate input

fun run :: "platform \<Rightarrow> action list \<Rightarrow> world \<Rightarrow> exn + world" where
  "run P [] w = Inr w"
| "run P (Operator line # rest) w =
     run P rest (if terminate_flag w then w else frequency_input P line w)"
| "run P (Iterate inp # rest) w =
     (if terminate_flag w then run P rest w
      else case iteration P inp w of
             Inl e \<Rightarrow> Inl e
           | Inr w' \<Rightarrow> run P rest w')"

definition iq_processing_loop :: "platform \<Rightarrow> action list \<Rightarrow> world \<Rightarrow> exn + world" where
  "iq_processing_loop P schedule w = run P schedule (startup w)"

text \<open>Lines 123 to 129: the handler of \<^verbatim>\<open>KeyboardInterrupt\<close>.\<close>

definition on_keyboard_interrupt :: "world \<Rightarrow> world" where
  "on_keyboard_interrupt w =
     (let w1 = emit (Print Exiting) w;
          w2 = w1\<lparr>terminate_flag := True\<rparr>;
          w3 = (case proc w2 of None \<Rightarrow> w2 | Some p \<Rightarrow> proc_kill p w2);
          w4 = (case conn w3 of None \<Rightarrow> w3 | Some c \<Rightarrow> conn_close c w3)
      in emit (Exit 0) w4)"

subsection \<open>The points at which the interrupt can arrive\<close>

text \<open>
  \<^verbatim>\<open>KeyboardInterrupt\<close> is raised in the main thread wherever it happens to be: between
  two statements, inside a blocking call, or between a call that has returned and the
  assignment of its result to a global. The functions below list, for each piece of the
  code, the states that it passes through, in order: one state after every call to the
  outside and after every assignment to a global. A blocking call is in progress in the
  state before the one in which it has returned. The last state of a piece that ends without
  an exception is its result.
\<close>

definition start_rtl_sdr_points :: "int \<Rightarrow> world \<Rightarrow> world list" where
  "start_rtl_sdr_points freq_hz w =
     (let w1 = emit (Print (Starting_rtl_sdr freq_hz)) w;
          h = length (procs_after (trace w1))
      in [w1, emit (Popen h freq_hz) w1])"

definition start_tcp_server_points :: "nat \<Rightarrow> world \<Rightarrow> world list" where
  "start_tcp_server_points port w =
     (let s = length (socks_after (trace w));
          w1 = emit (Socket s) w;
          w2 = emit (Bind s port) w1;
          w3 = emit (Listen s) w2;
          w4 = emit (Print (Waiting_for_connection port)) w3;
          c = length (socks_after (trace w4));
          w5 = emit (Accept s c) w4;
          w6 = emit (Print Connected) w5
      in [w1, w2, w3, w4, w5, w6, emit (Dealloc s) w6])"

definition change_frequency_points :: "int \<Rightarrow> world \<Rightarrow> world list" where
  "change_frequency_points new_freq w =
     (let w1 = emit (Print (Changing_frequency new_freq)) w;
          w2 = w1\<lparr>current_freq := new_freq\<rparr>
      in case proc w2 of
           None \<Rightarrow> [w1, w2]
         | Some p \<Rightarrow>
             (let w3 = proc_kill p w2;
                  w4 = proc_wait p w3;
                  (p', w5) = start_rtl_sdr (current_freq w4) w4
              in [w1, w2, w3, w4] @ start_rtl_sdr_points (current_freq w4) w4
                 @ [w5\<lparr>proc := Some p'\<rparr>]))"

fun drain_points :: "int list \<Rightarrow> world \<Rightarrow> world list" where
  "drain_points [] w = []"
| "drain_points (new_freq # rest) w =
     (let w1 = w\<lparr>freq_queue := rest\<rparr>
      in w1 #
         (if new_freq \<noteq> current_freq w1 then
            change_frequency_points new_freq w1 @
            (case change_frequency new_freq w1 of
               Inl e \<Rightarrow> []
             | Inr w2 \<Rightarrow> drain_points rest w2)
          else drain_points rest w1))"

definition deliver_points :: "exn option \<Rightarrow> complex list \<Rightarrow> world \<Rightarrow> world list" where
  "deliver_points outcome payload w =
     (case conn w of
        None \<Rightarrow> []
      | Some c \<Rightarrow>
          (let w1 = emit (Sendall c payload) w
           in case outcome of
                None \<Rightarrow> [w1]
              | Some e \<Rightarrow>
                  if e = BrokenPipeError \<or> e = ConnectionResetError then
                    (let w2 = emit (Print Disconnected) w1;
                         w3 = conn_close c w2;
                         (c', w4) = start_tcp_server PORT w3
                     in [w1, w2, w3] @ start_tcp_server_points PORT w3
                        @ [w4\<lparr>conn := Some c'\<rparr>])
                  else [w1]))"

definition iteration_points :: "platform \<Rightarrow> input \<Rightarrow> world \<Rightarrow> world list" where
  "iteration_points P inp w =
     drain_points (freq_queue w) w @
     (case check_frequency w of
        Inl e \<Rightarrow> []
      | Inr w1 \<Rightarrow>
          (case proc w1 of
             None \<Rightarrow> []
           | Some p \<Rightarrow>
               (let raw = take (CHUNK_SIZE * 2) (pipe_bytes inp);
                    w2 = emit (Read p (length raw)) w1
                in w2 #
                   (if length raw < CHUNK_SIZE * 2 then []
                    else deliver_points (send_outcome inp) (denoised_payload P raw) w2))))"

definition startup_points :: "world \<Rightarrow> world list" where
  "startup_points w =
     (let (p, w1) = start_rtl_sdr (current_freq w) w;
          w2 = w1\<lparr>proc := Some p\<rparr>;
          (c, w3) = start_tcp_server PORT w2
      in start_rtl_sdr_points (current_freq w) w @ [w2] @ start_tcp_server_points PORT w2
         @ [w3\<lparr>conn := Some c\<rparr>])"

fun run_points :: "platform \<Rightarrow> action list \<Rightarrow> world \<Rightarrow> world list" where
  "run_points P [] w = []"
| "run_points P (Operator line # rest) w =
     (let w1 = (if terminate_flag w then w else frequency_input P line w)
      in w1 # run_points P rest w1)"
| "run_points P (Iterate inp # rest) w =
     (if terminate_flag w then run_points P rest w
      else iteration_points P inp w @
           (case iteration P inp w of
              Inl e \<Rightarrow> []
            | Inr w' \<Rightarrow> run_points P rest w'))"

definition program_points :: "platform \<Rightarrow> action list \<Rightarrow> world list" where
  "program_points P schedule =
     initial_world # startup_points initial_world @ run_points P schedule (startup initial_world)"

text \<open>
  \<^verbatim>\<open>main\<close>, when the interrupt arrives at the point \<open>k\<close> of the run of the schedule:
  the handler runs on the state of that point. When the run has fewer points, it has ended
  with an exception of the loop other than the interrupt, which is not handled, or the
  interrupt arrives after its last point.
\<close>

definition main :: "platform \<Rightarrow> action list \<Rightarrow> nat \<Rightarrow> exn + world" where
  "main P schedule k =
     (if k < length (program_points P schedule)
      then Inr (on_keyboard_interrupt (program_points P schedule ! k))
      else
        (case iq_processing_loop P schedule initial_world of
           Inl e \<Rightarrow> Inl e
         | Inr w \<Rightarrow> Inr (on_keyboard_interrupt w)))"

section \<open>States of the running loop, and a platform to run the model on\<close>

text \<open>
  Inside the loop the globals hold the one running capture process and the one open socket,
  and the flag is not set.
\<close>

definition ready :: "world \<Rightarrow> bool" where
  "ready w =
     (case proc w of
        None \<Rightarrow> False
      | Some p \<Rightarrow>
          (case conn w of
             None \<Rightarrow> False
           | Some c \<Rightarrow>
               running_procs (trace w) = [p] \<and> open_socks (trace w) = [c]
               \<and> \<not> terminate_flag w))"

text \<open>
  An idealised platform with exact arithmetic, for running the model on concrete inputs:
  it reads decimal numbers without sign and exponent, multiplies and converts without
  rounding, and its solver steps against the gradient.
\<close>

definition is_digit :: "nat \<Rightarrow> bool" where
  "is_digit c = (48 \<le> c \<and> c \<le> 57)"

definition digits_value :: "nat list \<Rightarrow> nat" where
  "digits_value s = foldl (\<lambda>n c. 10 * n + (c - 48)) 0 s"

definition decimal_of_str :: "nat list \<Rightarrow> exn + pyfloat" where
  "decimal_of_str s =
     (let whole = takeWhile (\<lambda>c. c \<noteq> 46) s;
          frac = drop 1 (dropWhile (\<lambda>c. c \<noteq> 46) s)
      in if whole @ frac \<noteq> [] \<and> list_all is_digit (whole @ frac)
         then Inr (Finite (real (digits_value (whole @ frac)) / 10 ^ length frac))
         else Inl ValueError)"

fun exact_mul :: "pyfloat \<Rightarrow> pyfloat \<Rightarrow> pyfloat" where
  "exact_mul (Finite a) (Finite b) = Finite (a * b)"
| "exact_mul a b = NaN"

definition steepest_descent :: update_rule where
  "steepest_descent f jac visited =
     (let g = jac (last visited)
      in if list_all (\<lambda>c. c = 0) g then None else Some (\<lambda>i. - (g ! i)))"

definition exact_platform :: platform where
  "exact_platform =
     \<lparr>float_of_str = decimal_of_str, float_mul = exact_mul, float32 = (\<lambda>v. v),
      lbfgsb = steepest_descent\<rparr>"

text \<open>
  For statements about runs: the passes of the loop in a schedule, the chunk that a pass
  reads, whether the read is full, whether the send fails in one of the two ways that
  the handler catches, and the frequencies at which capture processes were started between
  two states.
\<close>

fun iterations :: "action list \<Rightarrow> input list" where
  "iterations [] = []"
| "iterations (Iterate inp # rest) = inp # iterations rest"
| "iterations (Operator line # rest) = iterations rest"

definition chunk :: "input \<Rightarrow> 8 word list" where
  "chunk inp = take (CHUNK_SIZE * 2) (pipe_bytes inp)"

definition full_read :: "input \<Rightarrow> bool" where
  "full_read inp = (CHUNK_SIZE * 2 \<le> length (pipe_bytes inp))"

definition send_fails :: "input \<Rightarrow> bool" where
  "send_fails inp =
     (send_outcome inp = Some BrokenPipeError \<or> send_outcome inp = Some ConnectionResetError)"

definition recoverable :: "input \<Rightarrow> bool" where
  "recoverable inp = (send_outcome inp = None \<or> send_fails inp)"

definition restarts :: "world \<Rightarrow> world \<Rightarrow> int list" where
  "restarts w w' = popen_freqs (drop (length (trace w)) (trace w'))"

section \<open>Framing: properties\<close>

lemma stride2_length: "length (stride2 xs) = (length xs + 1) div 2"
  by (induction xs rule: stride2.induct) simp_all

lemma stride2_nth: "2 * k < length xs \<Longrightarrow> stride2 xs ! k = xs ! (2 * k)"
proof (induction xs arbitrary: k rule: stride2.induct)
  case 1
  then show ?case by simp
next
  case (2 a)
  then show ?case by simp
next
  case (3 a b rest)
  show ?case
  proof (cases k)
    case 0
    then show ?thesis by simp
  next
    case (Suc j)
    with 3 show ?thesis by simp
  qed
qed

lemma set_stride2: "set (stride2 xs) \<subseteq> set xs"
  by (induction xs rule: stride2.induct) auto

lemma normalized_in_range:
  assumes "mono f32" and "f32 1 = 1" and "f32 (- 1) = - 1"
  shows "- 1 \<le> f32 ((real (unat (b :: 8 word)) - 127.5) / 127.5)
       \<and> f32 ((real (unat b) - 127.5) / 127.5) \<le> 1"
proof -
  have "unat b < 256"
    using unsigned_less [of b] by simp
  then have "unat b \<le> 255"
    by simp
  then have "real (unat b) \<le> real 255"
    by (rule of_nat_mono)
  then have hi: "(real (unat b) - 127.5) / 127.5 \<le> 1"
    by simp
  have "0 \<le> real (unat b)"
    by (rule of_nat_0_le_iff)
  then have lo: "- 1 \<le> (real (unat b) - 127.5) / 127.5"
    by simp
  from monoD [OF assms(1) hi] monoD [OF assms(1) lo] assms(2,3)
  show ?thesis by simp
qed

text \<open>
  C3: a chunk of \<open>2 * N\<close> bytes is framed into an I channel and a Q channel of \<open>N\<close> values
  each; the value at position \<open>k\<close> of the I channel comes from the byte at the even position
  \<open>2 * k\<close>, the one of the Q channel from the byte at the odd position \<open>2 * k + 1\<close>, and a
  byte \<open>b\<close> gives the float nearest to \<open>(b - 127.5) / 127.5\<close>. Every value of both
  channels lies in \<open>[-1, 1]\<close>, since rounding to the nearest float is monotone and leaves
  \<open>1\<close> and \<open>-1\<close> as they are.
\<close>

theorem frame_iq_channels:
  assumes len: "length raw = 2 * N"
    and f32: "mono f32" "f32 1 = 1" "f32 (- 1) = - 1"
  shows "length (fst (frame_iq f32 raw)) = N
       \<and> length (snd (frame_iq f32 raw)) = N
       \<and> (\<forall>k<N. fst (frame_iq f32 raw) ! k = f32 ((real (unat (raw ! (2 * k))) - 127.5) / 127.5)
               \<and> snd (frame_iq f32 raw) ! k = f32 ((real (unat (raw ! (2 * k + 1))) - 127.5) / 127.5))
       \<and> (\<forall>v \<in> set (fst (frame_iq f32 raw)) \<union> set (snd (frame_iq f32 raw)). - 1 \<le> v \<and> v \<le> 1)"
proof -
  let ?n = "\<lambda>b :: 8 word. f32 ((real (unat b) - 127.5) / 127.5)"
  let ?iq = "map ?n raw"
  have I: "fst (frame_iq f32 raw) = stride2 ?iq" and Q: "snd (frame_iq f32 raw) = stride2 (drop 1 ?iq)"
    by (simp_all add: frame_iq_def Let_def)
  have l1: "length (stride2 ?iq) = N"
    using len by (simp add: stride2_length)
  have l2: "length (stride2 (drop 1 ?iq)) = N"
    using len by (simp add: stride2_length)
  have n1: "stride2 ?iq ! k = ?n (raw ! (2 * k))" if "k < N" for k
    using that len by (simp add: stride2_nth)
  have n2: "stride2 (drop 1 ?iq) ! k = ?n (raw ! (2 * k + 1))" if "k < N" for k
  proof -
    have "2 * k < length (drop 1 ?iq)" using that len by simp
    then have "stride2 (drop 1 ?iq) ! k = drop 1 ?iq ! (2 * k)" by (rule stride2_nth)
    also have "\<dots> = ?iq ! (2 * k + 1)" using that len by simp
    also have "\<dots> = ?n (raw ! (2 * k + 1))" using that len by simp
    finally show ?thesis .
  qed
  have r: "- 1 \<le> v \<and> v \<le> 1" if "v \<in> set ?iq" for v
    using that normalized_in_range [OF f32] by auto
  have s1: "set (stride2 ?iq) \<subseteq> set ?iq" by (rule set_stride2)
  have s2: "set (stride2 (drop 1 ?iq)) \<subseteq> set ?iq"
    using set_stride2 [of "drop 1 ?iq"] set_drop_subset [of 1 ?iq] by blast
  show ?thesis
    unfolding I Q using l1 l2 n1 n2 r s1 s2 by blast
qed

theorem frame_iq_channels_witness:
  "length [127, 128, 0, 255 :: 8 word] = 2 * 2 \<and> mono (\<lambda>v :: real. v)
   \<and> frame_iq (\<lambda>v. v) [127, 128, 0, 255] = ([- 1 / 255, - 1], [1 / 255, 1])
   \<and> length (fst (frame_iq (\<lambda>v. v) [127, 128, 0, 255])) = 2
   \<and> length (snd (frame_iq (\<lambda>v. v) [127, 128, 0, 255])) = 2"
proof -
  have h: "length [127, 128, 0, 255 :: 8 word] = 2 * 2" "mono (\<lambda>v :: real. v)"
    by (simp_all add: mono_def)
  have e: "frame_iq (\<lambda>v. v) [127, 128, 0, 255] = ([- 1 / 255, - 1], [1 / 255, 1])"
    by (simp add: frame_iq_def)
  from frame_iq_channels [OF h(1) h(2)] h e show ?thesis by simp
qed

section \<open>The denoiser: properties\<close>

lemma advance_length: "length (advance xk d) = length xk"
  by (simp add: advance_def)

lemma iterate_lengths:
  "\<forall>y \<in> set earlier. length y = n \<Longrightarrow> length xk = n \<Longrightarrow>
   \<forall>y \<in> set (fst (iterate rule f jac k earlier xk)). length y = n"
proof (induction k arbitrary: earlier xk)
  case 0
  then show ?case by simp
next
  case (Suc k)
  show ?case
  proof (cases "rule f jac (earlier @ [xk])")
    case None
    with Suc.prems show ?thesis by simp
  next
    case (Some d)
    have "\<forall>y \<in> set (earlier @ [xk]). length y = n"
      using Suc.prems by simp
    moreover have "length (advance xk d) = n"
      using Suc.prems by (simp add: advance_length)
    ultimately have "\<forall>y \<in> set (fst (iterate rule f jac k (earlier @ [xk]) (advance xk d))). length y = n"
      by (rule Suc.IH)
    with Some show ?thesis by simp
  qed
qed

lemma iterate_prefix:
  "\<exists>later. fst (iterate rule f jac k earlier xk) = earlier @ xk # later \<and> length later \<le> k"
proof (induction k arbitrary: earlier xk)
  case 0
  then show ?case by simp
next
  case (Suc k)
  show ?case
  proof (cases "rule f jac (earlier @ [xk])")
    case None
    then show ?thesis by simp
  next
    case (Some d)
    from Suc.IH [of "earlier @ [xk]" "advance xk d"]
    obtain later where
      "fst (iterate rule f jac k (earlier @ [xk]) (advance xk d)) = (earlier @ [xk]) @ advance xk d # later"
      "length later \<le> k"
      by blast
    with Some show ?thesis by simp
  qed
qed

lemma trajectory_start:
  "\<exists>later. trajectory rule f x0 jac maxiter = x0 # later \<and> length later \<le> maxiter"
  using iterate_prefix [of rule f jac maxiter "[]" x0] by (simp add: trajectory_def)

lemma trajectory_length:
  "y \<in> set (trajectory rule f x0 jac maxiter) \<Longrightarrow> length y = length x0"
  using iterate_lengths [of "[]" "length x0" x0 rule f jac maxiter] by (simp add: trajectory_def)

lemma best_iterate_mem: "best_iterate f b ys \<in> insert b (set ys)"
proof (induction ys arbitrary: b)
  case Nil
  then show ?case by simp
next
  case (Cons y ys)
  have "best_iterate f (if f y < f b then y else b) ys \<in> insert (if f y < f b then y else b) (set ys)"
    by (rule Cons.IH)
  then show ?case by (cases "f y < f b") auto
qed

lemma best_iterate_le_start: "f (best_iterate f b ys) \<le> f b"
proof (induction ys arbitrary: b)
  case Nil
  then show ?case by simp
next
  case (Cons y ys)
  have "f (best_iterate f (if f y < f b then y else b) ys) \<le> f (if f y < f b then y else b)"
    by (rule Cons.IH)
  then show ?case by (simp split: if_splits)
qed

lemma best_iterate_le: "y \<in> set ys \<Longrightarrow> f (best_iterate f b ys) \<le> f y"
proof (induction ys arbitrary: b)
  case Nil
  then show ?case by simp
next
  case (Cons z zs)
  show ?case
  proof (cases "y = z")
    case True
    have "f (best_iterate f (if f z < f b then z else b) zs) \<le> f (if f z < f b then z else b)"
      by (rule best_iterate_le_start)
    with True show ?thesis by (simp split: if_splits)
  next
    case False
    with Cons.prems have "y \<in> set zs" by simp
    then show ?thesis by (simp add: Cons.IH)
  qed
qed

lemma best_iterate_keeps: "\<forall>y \<in> set ys. \<not> f y < f b \<Longrightarrow> best_iterate f b ys = b"
  by (induction ys) simp_all

lemma minimize_opt_x:
  "opt_x (minimize rule f x0 jac maxiter) = best_iterate f x0 (trajectory rule f x0 jac maxiter)"
  by (simp add: minimize_def trajectory_def split: prod.splits)

lemma minimize_nit:
  "nit (minimize rule f x0 jac maxiter) = length (trajectory rule f x0 jac maxiter) - 1"
  by (simp add: minimize_def trajectory_def split: prod.splits)

lemma denoise_vector_eq:
  "denoise_vector rule data =
     best_iterate (cost_function_factory data) (zeros_like data)
       (trajectory rule (cost_function_factory data) (zeros_like data) (gradient_factory data) 30)"
  by (simp add: denoise_vector_def Let_def minimize_opt_x)

lemma denoise_vector_mem:
  "denoise_vector rule data
     \<in> set (trajectory rule (cost_function_factory data) (zeros_like data) (gradient_factory data) 30)"
proof -
  let ?t = "trajectory rule (cost_function_factory data) (zeros_like data) (gradient_factory data) 30"
  obtain later where t: "?t = zeros_like data # later"
    using trajectory_start by blast
  have "denoise_vector rule data \<in> insert (zeros_like data) (set ?t)"
    unfolding denoise_vector_eq by (rule best_iterate_mem)
  with t show ?thesis by simp
qed

text \<open>
  C9: for every input vector, and whatever update rule the solver follows, the denoised
  vector has the length of the input.
\<close>

theorem denoise_vector_length: "length (denoise_vector rule v) = length v"
  using trajectory_length [OF denoise_vector_mem [of rule v]] by (simp add: zeros_like_def)

lemma LAMBDA_L1_pos: "0 < LAMBDA_L1"
  by (simp add: LAMBDA_L1_def)

lemma smooth_l1_sum_ge: "real (length x) * EPSILON \<le> sum_list (smooth_l1 x)"
proof (induction x)
  case Nil
  then show ?case by (simp add: smooth_l1_def)
next
  case (Cons v x)
  have "sqrt (EPSILON\<^sup>2) \<le> sqrt (v\<^sup>2 + EPSILON\<^sup>2)"
    by (rule real_sqrt_le_mono) simp
  then have "EPSILON \<le> sqrt (v\<^sup>2 + EPSILON\<^sup>2)"
    by (simp add: EPSILON_def)
  moreover have "real (length (v # x)) * EPSILON = EPSILON + real (length x) * EPSILON"
    by (simp add: algebra_simps)
  moreover have "sum_list (smooth_l1 (v # x)) = sqrt (v\<^sup>2 + EPSILON\<^sup>2) + sum_list (smooth_l1 x)"
    by (simp add: smooth_l1_def)
  ultimately show ?case
    using Cons.IH by linarith
qed

lemma squares_sum_nonneg: "0 \<le> sum_list (map (\<lambda>d :: real. d\<^sup>2) ds)"
  by (induction ds) simp_all

lemma cost_at_zeros:
  "cost_function_factory (replicate n 0) (replicate n 0) = LAMBDA_L1 * (real n * EPSILON)"
proof -
  have a: "map2 (-) (replicate n (0::real)) (replicate n 0) = replicate n 0"
    by (induction n) simp_all
  have b: "sum_list (map (\<lambda>d :: real. d\<^sup>2) (replicate n 0)) = 0"
    by (induction n) simp_all
  have c: "sum_list (smooth_l1 (replicate n 0)) = real n * EPSILON"
    by (induction n) (simp_all add: smooth_l1_def EPSILON_def algebra_simps)
  show ?thesis
    unfolding cost_function_factory_def a b c by simp
qed

lemma cost_ge_zeros:
  assumes "length x = n"
  shows "cost_function_factory (replicate n 0) (replicate n 0) \<le> cost_function_factory target x"
proof -
  have "LAMBDA_L1 * (real n * EPSILON) \<le> LAMBDA_L1 * sum_list (smooth_l1 x)"
    using smooth_l1_sum_ge [of x] assms LAMBDA_L1_pos by simp
  moreover have "0 \<le> 0.5 * sum_list (map (\<lambda>d. d\<^sup>2) (map2 (-) x target))"
    using squares_sum_nonneg [of "map2 (-) x target"] by simp
  ultimately show ?thesis
    unfolding cost_at_zeros by (simp add: cost_function_factory_def)
qed

lemma gradient_at_zeros:
  "gradient_factory (replicate n 0) (replicate n 0) = replicate n 0"
  by (induction n) (simp_all add: gradient_factory_def)

text \<open>
  C4: the denoised all-zero vector of any length is the all-zero vector of that length,
  whatever update rule the solver follows: the solver starts at the zero vector, where the
  gradient for the zero target vanishes, and no iterate has a smaller cost.
\<close>

theorem denoise_vector_zero:
  "denoise_vector rule (replicate n 0) = replicate n 0
   \<and> gradient_factory (replicate n 0) (zeros_like (replicate n 0)) = replicate n 0"
proof -
  let ?z = "replicate n (0::real)"
  let ?t = "trajectory rule (cost_function_factory ?z) ?z (gradient_factory ?z) 30"
  have "\<not> cost_function_factory ?z y < cost_function_factory ?z ?z" if "y \<in> set ?t" for y
  proof -
    have "length y = n" using trajectory_length [OF that] by simp
    then show ?thesis using cost_ge_zeros [of y n ?z] by simp
  qed
  then have "best_iterate (cost_function_factory ?z) ?z ?t = ?z"
    by (intro best_iterate_keeps) blast
  then show ?thesis
    by (simp add: denoise_vector_eq zeros_like_def gradient_at_zeros)
qed

section \<open>The processing loop: properties\<close>

subsection \<open>Traces\<close>

lemma emit_simps [simp]:
  "trace (emit e w) = trace w @ [e]"
  "current_freq (emit e w) = current_freq w"
  "proc (emit e w) = proc w"
  "conn (emit e w) = conn w"
  "freq_queue (emit e w) = freq_queue w"
  "terminate_flag (emit e w) = terminate_flag w"
  by (simp_all add: emit_def)

lemma procs_after_append: "procs_after (tr @ es) = foldl os_proc (procs_after tr) es"
  by (simp add: procs_after_def)

lemma socks_after_append: "socks_after (tr @ es) = foldl os_sock (socks_after tr) es"
  by (simp add: socks_after_def)

lemma popen_freqs_append: "popen_freqs (a @ b) = popen_freqs a @ popen_freqs b"
  by (induction a rule: popen_freqs.induct) simp_all

lemma sent_payloads_append: "sent_payloads (a @ b) = sent_payloads a @ sent_payloads b"
  by (induction a rule: sent_payloads.induct) simp_all

lemma listen_calls_append: "listen_calls (a @ b) = listen_calls a @ listen_calls b"
  by (induction a rule: listen_calls.induct) simp_all

lemma close_calls_append: "close_calls (a @ b) = close_calls a @ close_calls b"
  by (induction a rule: close_calls.induct) simp_all

subsection \<open>Running processes and open sockets\<close>

lemma set_running_in: "set (running_in ps) = {h. h < length ps \<and> ps ! h = Running}"
  by (auto simp: running_in_def)

lemma set_open_in: "set (open_in ss) = {s. s < length ss \<and> ss ! s = Opened}"
  by (auto simp: open_in_def)

lemma nth_update_other:
  "j < length xs \<Longrightarrow> v \<noteq> u \<Longrightarrow> (xs[i := v] ! j = u) = (j \<noteq> i \<and> xs ! j = u)"
  by (cases "i = j") auto

lemma length_os_proc:
  "length (os_proc ps e) = (case e of Popen h f \<Rightarrow> Suc (length ps) | _ \<Rightarrow> length ps)"
  by (cases e) simp_all

lemma running_Popen: "set (running_in (os_proc ps (Popen h f))) = insert (length ps) (set (running_in ps))"
  by (auto simp: set_running_in nth_append less_Suc_eq)

lemma running_Kill: "set (running_in (os_proc ps (Kill p))) = set (running_in ps) - {p}"
  by (auto simp: set_running_in nth_update_other)

lemma running_Wait: "set (running_in (os_proc ps (Wait p))) = set (running_in ps) - {p}"
  by (auto simp: set_running_in nth_update_other)

lemma open_Socket: "set (open_in (os_sock ss (Socket s))) = insert (length ss) (set (open_in ss))"
  by (auto simp: set_open_in nth_append less_Suc_eq)

lemma open_Accept: "set (open_in (os_sock ss (Accept s c))) = insert (length ss) (set (open_in ss))"
  by (auto simp: set_open_in nth_append less_Suc_eq)

lemma open_Close: "set (open_in (os_sock ss (Close c))) = set (open_in ss) - {c}"
  by (auto simp: set_open_in nth_update_other)

lemma open_Dealloc: "set (open_in (os_sock ss (Dealloc c))) = set (open_in ss) - {c}"
  by (auto simp: set_open_in nth_update_other)

lemma running_in_le1: "set (running_in ps) \<subseteq> {x} \<Longrightarrow> length (running_in ps) \<le> 1"
proof -
  assume a: "set (running_in ps) \<subseteq> {x}"
  have "distinct (running_in ps)"
    by (simp add: running_in_def)
  then have "length (running_in ps) = card (set (running_in ps))"
    by (simp add: distinct_card)
  also have "\<dots> \<le> card {x}"
    using a by (intro card_mono) simp_all
  finally show ?thesis by simp
qed

lemma running_in_empty: "set (running_in ps) = {} \<Longrightarrow> running_in ps = []"
  by simp

lemma singleton_list: "distinct xs \<Longrightarrow> set xs = {a} \<Longrightarrow> xs = [a]"
proof (cases xs)
  case Nil
  assume "set xs = {a}"
  with Nil show ?thesis by simp
next
  case (Cons b ys)
  assume d: "distinct xs" and s: "set xs = {a}"
  from s Cons have "b = a" by auto
  moreover from s Cons d have "set ys \<subseteq> {a}" "a \<notin> set ys" using \<open>b = a\<close> by auto
  then have "ys = []" by (cases ys) auto
  ultimately show ?thesis using Cons by simp
qed

lemma running_in_single: "(running_in ps = [p]) = (set (running_in ps) = {p})"
proof
  assume "running_in ps = [p]"
  then show "set (running_in ps) = {p}" by simp
next
  assume "set (running_in ps) = {p}"
  moreover have "distinct (running_in ps)" by (simp add: running_in_def)
  ultimately show "running_in ps = [p]" by (intro singleton_list)
qed

lemma open_in_single: "(open_in ss = [c]) = (set (open_in ss) = {c})"
proof
  assume "open_in ss = [c]"
  then show "set (open_in ss) = {c}" by simp
next
  assume "set (open_in ss) = {c}"
  moreover have "distinct (open_in ss)" by (simp add: open_in_def)
  ultimately show "open_in ss = [c]" by (intro singleton_list)
qed

lemma running_in_bound: "h \<in> set (running_in ps) \<Longrightarrow> h < length ps"
  by (simp add: set_running_in)

lemma open_in_bound: "s \<in> set (open_in ss) \<Longrightarrow> s < length ss"
  by (simp add: set_open_in)

lemma start_rtl_sdr_eq:
  "start_rtl_sdr f w =
     (length (procs_after (trace w)),
      w\<lparr>trace := trace w @ [Print (Starting_rtl_sdr f), Popen (length (procs_after (trace w))) f]\<rparr>)"
  by (simp add: start_rtl_sdr_def emit_def Let_def procs_after_append)

lemma start_tcp_server_eq:
  "start_tcp_server port w =
     (Suc (length (socks_after (trace w))),
      w\<lparr>trace := trace w @
         [Socket (length (socks_after (trace w))), Bind (length (socks_after (trace w))) port,
          Listen (length (socks_after (trace w))), Print (Waiting_for_connection port),
          Accept (length (socks_after (trace w))) (Suc (length (socks_after (trace w)))),
          Print Connected, Dealloc (length (socks_after (trace w)))]\<rparr>)"
  by (simp add: start_tcp_server_def emit_def Let_def socks_after_append)

lemma change_frequency_eq:
  "proc w = Some p \<Longrightarrow>
   change_frequency f w =
     Inr (w\<lparr>current_freq := f, proc := Some (length (procs_after (trace w))),
            trace := trace w @
              [Print (Changing_frequency f), Kill p, Wait p, Print (Starting_rtl_sdr f),
               Popen (length (procs_after (trace w))) f]\<rparr>)"
  by (simp add: change_frequency_def proc_kill_def proc_wait_def start_rtl_sdr_eq emit_def Let_def
      procs_after_append length_os_proc)

lemma deliver_sent:
  "conn w = Some c \<Longrightarrow> deliver None payload w = Inr (w\<lparr>trace := trace w @ [Sendall c payload]\<rparr>)"
  by (simp add: deliver_def emit_def)

lemma deliver_reconnect:
  "conn w = Some c \<Longrightarrow> e = BrokenPipeError \<or> e = ConnectionResetError \<Longrightarrow>
   deliver (Some e) payload w =
     Inr (w\<lparr>conn := Some (Suc (length (socks_after (trace w)))),
            trace := trace w @
              [Sendall c payload, Print Disconnected, Close c,
               Socket (length (socks_after (trace w))), Bind (length (socks_after (trace w))) PORT,
               Listen (length (socks_after (trace w))), Print (Waiting_for_connection PORT),
               Accept (length (socks_after (trace w))) (Suc (length (socks_after (trace w)))),
               Print Connected, Dealloc (length (socks_after (trace w)))]\<rparr>)"
  by (auto simp: deliver_def conn_close_def start_tcp_server_eq emit_def Let_def socks_after_append)

lemma deliver_other:
  "conn w = Some c \<Longrightarrow> e \<noteq> BrokenPipeError \<Longrightarrow> e \<noteq> ConnectionResetError \<Longrightarrow>
   deliver (Some e) payload w = Inl e"
  by (simp add: deliver_def)

lemma change_frequency_Inr:
  assumes "change_frequency f w = Inr w'"
  shows "\<exists>p. proc w = Some p \<and>
     w' = w\<lparr>current_freq := f, proc := Some (length (procs_after (trace w))),
            trace := trace w @
              [Print (Changing_frequency f), Kill p, Wait p, Print (Starting_rtl_sdr f),
               Popen (length (procs_after (trace w))) f]\<rparr>"
proof (cases "proc w")
  case None
  with assms show ?thesis by (simp add: change_frequency_def Let_def emit_def)
next
  case (Some p)
  with assms change_frequency_eq [OF Some, of f] show ?thesis by simp
qed

lemma remdups_adj_tl_Cons: "x # tl (remdups_adj (x # xs)) = remdups_adj (x # xs)"
  by (cases xs) (simp_all add: remdups_adj_Cons split: list.splits)

lemma drain_ok: "proc w = Some p \<Longrightarrow> \<exists>w'. drain q w = Inr w'"
proof (induction q arbitrary: w p)
  case Nil
  then show ?case by simp
next
  case (Cons f rest)
  let ?w1 = "w\<lparr>freq_queue := rest\<rparr>"
  have p1: "proc ?w1 = Some p" using Cons.prems by simp
  show ?case
  proof (cases "f = current_freq w")
    case True
    with Cons.IH [OF p1] show ?thesis by (simp add: Let_def)
  next
    case False
    from change_frequency_eq [OF p1, of f] obtain w2 where
      w2: "change_frequency f ?w1 = Inr w2" "proc w2 = Some (length (procs_after (trace ?w1)))"
      by simp
    from Cons.IH [OF w2(2)] obtain w' where "drain rest w2 = Inr w'" by blast
    with False w2 show ?thesis by (simp add: Let_def)
  qed
qed

lemma drain_events:
  "drain q w = Inr w' \<Longrightarrow>
   \<exists>es. trace w' = trace w @ es
      \<and> popen_freqs es = tl (remdups_adj (current_freq w # q))
      \<and> sent_payloads es = [] \<and> listen_calls es = [] \<and> close_calls es = []
      \<and> socks_after (trace w') = socks_after (trace w)"
proof (induction q arbitrary: w)
  case Nil
  then show ?case by simp
next
  case (Cons f rest)
  let ?w1 = "w\<lparr>freq_queue := rest\<rparr>"
  show ?case
  proof (cases "f = current_freq w")
    case True
    with Cons.prems have "drain rest ?w1 = Inr w'" by (simp add: Let_def)
    from Cons.IH [OF this] True show ?thesis by simp
  next
    case False
    with Cons.prems obtain w2 where
      w2: "change_frequency f ?w1 = Inr w2" and d: "drain rest w2 = Inr w'"
      by (auto simp: Let_def split: sum.splits)
    from change_frequency_Inr [OF w2] obtain p where
      e: "w2 = ?w1\<lparr>current_freq := f, proc := Some (length (procs_after (trace ?w1))),
            trace := trace ?w1 @
              [Print (Changing_frequency f), Kill p, Wait p, Print (Starting_rtl_sdr f),
               Popen (length (procs_after (trace ?w1))) f]\<rparr>"
      by blast
    let ?es1 = "[Print (Changing_frequency f), Kill p, Wait p, Print (Starting_rtl_sdr f),
               Popen (length (procs_after (trace w))) f]"
    have t2: "trace w2 = trace w @ ?es1" and c2: "current_freq w2 = f"
      by (simp_all add: e)
    from Cons.IH [OF d] obtain es where
      es: "trace w' = trace w2 @ es" "popen_freqs es = tl (remdups_adj (current_freq w2 # rest))"
        "sent_payloads es = []" "listen_calls es = []" "close_calls es = []"
        "socks_after (trace w') = socks_after (trace w2)"
      by blast
    have a: "trace w' = trace w @ (?es1 @ es)"
      using es(1) t2 by simp
    have b: "popen_freqs (?es1 @ es) = tl (remdups_adj (current_freq w # f # rest))"
      using False es(2) c2 by (simp add: remdups_adj_tl_Cons)
    have c: "sent_payloads (?es1 @ es) = []" "listen_calls (?es1 @ es) = []" "close_calls (?es1 @ es) = []"
      using es(3,4,5) by simp_all
    have s: "socks_after (trace w') = socks_after (trace w)"
      using es(6) t2 by (simp add: socks_after_append)
    from a b c s show ?thesis by blast
  qed
qed

lemma drain_fields:
  "drain q w = Inr w' \<Longrightarrow>
   current_freq w' = last (current_freq w # q) \<and> conn w' = conn w
   \<and> terminate_flag w' = terminate_flag w
   \<and> freq_queue w' = (if q = [] then freq_queue w else [])"
proof (induction q arbitrary: w)
  case Nil
  then show ?case by simp
next
  case (Cons f rest)
  let ?w1 = "w\<lparr>freq_queue := rest\<rparr>"
  show ?case
  proof (cases "f = current_freq w")
    case True
    with Cons.prems have "drain rest ?w1 = Inr w'" by (simp add: Let_def)
    from Cons.IH [OF this] True show ?thesis by (cases rest) simp_all
  next
    case False
    with Cons.prems obtain w2 where
      w2: "change_frequency f ?w1 = Inr w2" and d: "drain rest w2 = Inr w'"
      by (auto simp: Let_def split: sum.splits)
    from change_frequency_Inr [OF w2] have
      "current_freq w2 = f" "conn w2 = conn w" "terminate_flag w2 = terminate_flag w"
      "freq_queue w2 = rest"
      by auto
    with Cons.IH [OF d] show ?thesis by (cases rest) simp_all
  qed
qed

lemma change_frequency_running:
  assumes "proc w = Some p" and "running_procs (trace w) = [p]"
    and "change_frequency f w = Inr w'"
  shows "proc w' = Some (length (procs_after (trace w)))
       \<and> running_procs (trace w') = [length (procs_after (trace w))]"
proof -
  from change_frequency_eq [OF assms(1), of f] assms(3) have
    e: "w' = w\<lparr>current_freq := f, proc := Some (length (procs_after (trace w))),
            trace := trace w @
              [Print (Changing_frequency f), Kill p, Wait p, Print (Starting_rtl_sdr f),
               Popen (length (procs_after (trace w))) f]\<rparr>"
    by simp
  have r: "set (running_in (procs_after (trace w))) = {p}"
    using assms(2) by (simp add: running_procs_def)
  have "set (running_in (procs_after (trace w'))) = {length (procs_after (trace w))}"
    unfolding e by (simp add: procs_after_append running_Popen running_Wait running_Kill
        length_os_proc r del: os_proc.simps(1,2,3))
  then show ?thesis
    by (simp add: running_procs_def running_in_single e)
qed

lemma drain_running:
  "drain q w = Inr w' \<Longrightarrow> proc w = Some p \<Longrightarrow> running_procs (trace w) = [p] \<Longrightarrow>
   \<exists>p'. proc w' = Some p' \<and> running_procs (trace w') = [p']"
proof (induction q arbitrary: w p)
  case Nil
  then show ?case by simp
next
  case (Cons f rest)
  let ?w1 = "w\<lparr>freq_queue := rest\<rparr>"
  have p1: "proc ?w1 = Some p" "running_procs (trace ?w1) = [p]"
    using Cons.prems by simp_all
  show ?case
  proof (cases "f = current_freq w")
    case True
    with Cons.prems have "drain rest ?w1 = Inr w'" by (simp add: Let_def)
    from Cons.IH [OF this p1] show ?thesis .
  next
    case False
    with Cons.prems obtain w2 where
      w2: "change_frequency f ?w1 = Inr w2" and d: "drain rest w2 = Inr w'"
      by (auto simp: Let_def split: sum.splits)
    from change_frequency_running [OF p1 w2] Cons.IH [OF d] show ?thesis by blast
  qed
qed

lemma take_beyond: "length tr \<le> n \<Longrightarrow> take n (tr @ es) = tr @ take (n - length tr) es"
  by simp

lemma restart_prefixes:
  assumes r: "set (running_in ps) = {p}"
  shows "length (running_in (foldl os_proc ps
           (take k [Print m1, Kill p, Wait p, Print m2, Popen h f]))) \<le> 1"
proof -
  consider "k = 0" | "k = 1" | "k = 2" | "k = 3" | "k = 4" | "5 \<le> k"
    by linarith
  then show ?thesis
  proof cases
    case 1
    then show ?thesis using r by (intro running_in_le1 [of _ p]) simp
  next
    case 2
    then show ?thesis using r by (intro running_in_le1 [of _ p]) simp
  next
    case 3
    then show ?thesis using r
      by (intro running_in_le1 [of _ p]) (simp add: running_Kill del: os_proc.simps(1,2,3))
  next
    case 4
    then show ?thesis using r
      by (intro running_in_le1 [of _ p])
        (simp add: running_Kill running_Wait del: os_proc.simps(1,2,3))
  next
    case 5
    then show ?thesis using r
      by (intro running_in_le1 [of _ p])
        (simp add: running_Kill running_Wait del: os_proc.simps(1,2,3))
  next
    case 6
    then show ?thesis using r
      by (intro running_in_le1 [of _ "length ps"])
        (simp add: running_Kill running_Wait running_Popen length_os_proc
          del: os_proc.simps(1,2,3))
  qed
qed

text \<open>
  C5: when a frequency change is applied, the old capture process is killed and waited for
  before the new one is started: the calls are \<^verbatim>\<open>kill\<close>, \<^verbatim>\<open>wait\<close>,
  \<^verbatim>\<open>Popen\<close> in this order, the old process is reaped and no process runs when the new
  one is started, and at every point of the restart at most one process is running.
\<close>

theorem change_frequency_kill_wait_start:
  assumes "proc w = Some p" and "running_procs (trace w) = [p]"
  shows "\<exists>w' p'. change_frequency f w = Inr w'
     \<and> trace w' = trace w @
          [Print (Changing_frequency f), Kill p, Wait p, Print (Starting_rtl_sdr f), Popen p' f]
     \<and> proc w' = Some p' \<and> p' \<noteq> p
     \<and> procs_after (trace w @ [Print (Changing_frequency f), Kill p, Wait p]) ! p = Reaped
     \<and> running_procs (trace w @ [Print (Changing_frequency f), Kill p, Wait p]) = []
     \<and> running_procs (trace w') = [p']
     \<and> (\<forall>n. length (trace w) \<le> n \<longrightarrow> length (running_procs (take n (trace w'))) \<le> 1)"
proof -
  let ?ps = "procs_after (trace w)"
  let ?h = "length ?ps"
  let ?es = "[Print (Changing_frequency f), Kill p, Wait p, Print (Starting_rtl_sdr f), Popen ?h f]"
  let ?w' = "w\<lparr>current_freq := f, proc := Some ?h, trace := trace w @ ?es\<rparr>"
  have r: "set (running_in ?ps) = {p}"
    using assms(2) by (simp add: running_procs_def)
  then have pl: "p < ?h"
    using running_in_bound [of p ?ps] by simp
  have 1: "change_frequency f w = Inr ?w'"
    by (rule change_frequency_eq [OF assms(1)])
  have 2: "trace ?w' = trace w @ ?es" "proc ?w' = Some ?h"
    by simp_all
  have 3: "?h \<noteq> p"
    using pl by simp
  have 4: "procs_after (trace w @ [Print (Changing_frequency f), Kill p, Wait p]) ! p = Reaped"
    using pl by (simp add: procs_after_append)
  have "set (running_in (procs_after (trace w @ [Print (Changing_frequency f), Kill p, Wait p]))) = {}"
    using r by (simp add: procs_after_append running_Kill running_Wait del: os_proc.simps(1,2,3))
  then have 5: "running_procs (trace w @ [Print (Changing_frequency f), Kill p, Wait p]) = []"
    by (simp add: running_procs_def)
  have 6: "running_procs (trace ?w') = [?h]"
    using change_frequency_running [OF assms 1] by simp
  have 7: "length (running_procs (take n (trace ?w'))) \<le> 1" if "length (trace w) \<le> n" for n
  proof -
    have "take n (trace ?w') = trace w @ take (n - length (trace w)) ?es"
      using that by simp
    then show ?thesis
      using restart_prefixes [OF r, of "n - length (trace w)"]
      by (simp only: running_procs_def procs_after_append)
  qed
  from 1 2 3 4 5 6 7 show ?thesis by blast
qed

lemma startup_initial:
  "startup initial_world =
     \<lparr>current_freq = 102000000, proc = Some 0, conn = Some 1, freq_queue = [],
      terminate_flag = False,
      trace = [Print (Starting_rtl_sdr 102000000), Popen 0 102000000, Socket 0, Bind 0 9000,
               Listen 0, Print (Waiting_for_connection 9000), Accept 0 1, Print Connected,
               Dealloc 0]\<rparr>"
  by (simp add: startup_def initial_world_def start_rtl_sdr_eq start_tcp_server_eq
      procs_after_def socks_after_def DEFAULT_FREQ_def PORT_def)

lemma ready_startup: "ready (startup initial_world)"
  by (simp add: startup_initial ready_def running_procs_def open_socks_def procs_after_def
      socks_after_def running_in_def open_in_def)

lemma readyE:
  assumes "ready w"
  obtains p c where "proc w = Some p" "conn w = Some c" "running_procs (trace w) = [p]"
    "open_socks (trace w) = [c]" "\<not> terminate_flag w"
  using assms by (auto simp: ready_def split: option.splits)

lemma readyI:
  "proc w = Some p \<Longrightarrow> conn w = Some c \<Longrightarrow> running_procs (trace w) = [p] \<Longrightarrow>
   open_socks (trace w) = [c] \<Longrightarrow> \<not> terminate_flag w \<Longrightarrow> ready w"
  by (simp add: ready_def)

lemma frequency_input_cases:
  "frequency_input P line w = w
   \<or> frequency_input P line w = w\<lparr>trace := trace w @ [Print Invalid_input]\<rparr>
   \<or> (\<exists>f. frequency_input P line w = w\<lparr>freq_queue := freq_queue w @ [f]\<rparr>)"
  by (auto simp: frequency_input_def Let_def emit_def split: sum.splits)

lemma frequency_input_ready: "ready w \<Longrightarrow> ready (frequency_input P line w)"
  using frequency_input_cases [of P line w]
  by (auto simp: ready_def running_procs_def open_socks_def procs_after_append
      socks_after_append split: option.splits)

lemma frequency_input_events:
  "\<exists>es. trace (frequency_input P line w) = trace w @ es
      \<and> sent_payloads es = [] \<and> listen_calls es = [] \<and> close_calls es = []
      \<and> popen_freqs es = []"
  using frequency_input_cases [of P line w] by auto

lemma check_frequency_ready:
  assumes "ready w"
  shows "\<exists>w1. check_frequency w = Inr w1 \<and> ready w1"
proof -
  from assms obtain p c where
    h: "proc w = Some p" "conn w = Some c" "running_procs (trace w) = [p]"
      "open_socks (trace w) = [c]" "\<not> terminate_flag w"
    by (rule readyE)
  from drain_ok [OF h(1)] obtain w1 where w1: "drain (freq_queue w) w = Inr w1"
    by blast
  from drain_running [OF w1 h(1) h(3)] obtain p' where
    p': "proc w1 = Some p'" "running_procs (trace w1) = [p']"
    by blast
  from drain_fields [OF w1] have f: "conn w1 = conn w" "terminate_flag w1 = terminate_flag w"
    by simp_all
  from drain_events [OF w1] have "socks_after (trace w1) = socks_after (trace w)"
    by blast
  then have "open_socks (trace w1) = [c]"
    using h(4) by (simp add: open_socks_def)
  with p' f h w1 show ?thesis
    by (auto simp: check_frequency_def intro: readyI)
qed

lemma iteration_unfold:
  assumes "check_frequency w = Inr w1" and "proc w1 = Some p"
  shows "iteration P inp w =
     (if full_read inp
      then deliver (send_outcome inp) (denoised_payload P (chunk inp))
             (w1\<lparr>trace := trace w1 @ [Read p (CHUNK_SIZE * 2)]\<rparr>)
      else Inr (w1\<lparr>trace := trace w1 @ [Read p (length (pipe_bytes inp))]\<rparr>))"
  using assms
  by (auto simp: iteration_def Let_def emit_def full_read_def chunk_def min_def)

lemma ready_read: "ready w \<Longrightarrow> ready (w\<lparr>trace := trace w @ [Read p n]\<rparr>)"
  by (auto simp: ready_def running_procs_def open_socks_def procs_after_append
      socks_after_append split: option.splits)

lemma ready_sent: "ready w \<Longrightarrow> ready (w\<lparr>trace := trace w @ [Sendall c payload]\<rparr>)"
  by (auto simp: ready_def running_procs_def open_socks_def procs_after_append
      socks_after_append split: option.splits)

lemma ready_reconnect:
  assumes "ready w" and "conn w = Some c"
  shows "ready (w\<lparr>conn := Some (Suc (length (socks_after (trace w)))),
            trace := trace w @
              [Sendall c payload, Print Disconnected, Close c,
               Socket (length (socks_after (trace w))), Bind (length (socks_after (trace w))) PORT,
               Listen (length (socks_after (trace w))), Print (Waiting_for_connection PORT),
               Accept (length (socks_after (trace w))) (Suc (length (socks_after (trace w)))),
               Print Connected, Dealloc (length (socks_after (trace w)))]\<rparr>)"
    (is "ready ?w'")
proof -
  from assms obtain p where
    h: "proc w = Some p" "running_procs (trace w) = [p]"
      "open_socks (trace w) = [c]" "\<not> terminate_flag w"
    by (auto elim: readyE)
  let ?ss = "socks_after (trace w)"
  have o: "set (open_in ?ss) = {c}"
    using h(3) by (simp add: open_socks_def)
  have l: "length (os_sock ss (Close c)) = length ss" for ss
    by simp
  have "set (open_in (socks_after (trace ?w'))) = {Suc (length ?ss)}"
    by (simp add: socks_after_append open_Dealloc open_Accept open_Socket open_Close o l
        del: os_sock.simps(1,2,3,4)) auto
  then have "open_socks (trace ?w') = [Suc (length ?ss)]"
    by (simp add: open_socks_def open_in_single)
  moreover have "running_procs (trace ?w') = [p]"
    using h(2) by (simp add: running_procs_def procs_after_append)
  ultimately show ?thesis
    using h by (intro readyI [of _ p "Suc (length ?ss)"]) simp_all
qed

lemma check_frequency_events:
  assumes "check_frequency w = Inr w1"
  shows "\<exists>es. trace w1 = trace w @ es
      \<and> popen_freqs es = tl (remdups_adj (current_freq w # freq_queue w))
      \<and> sent_payloads es = [] \<and> listen_calls es = [] \<and> close_calls es = []"
  using drain_events [of "freq_queue w" w w1] assms by (auto simp: check_frequency_def)

lemma iteration_ok:
  assumes "ready w" and "recoverable inp"
  shows "\<exists>w'. iteration P inp w = Inr w'"
proof -
  from check_frequency_ready [OF assms(1)] obtain w1 where
    w1: "check_frequency w = Inr w1" "ready w1"
    by blast
  from w1(2) obtain p c where pc: "proc w1 = Some p" "conn w1 = Some c"
    by (auto elim: readyE)
  let ?w2 = "w1\<lparr>trace := trace w1 @ [Read p (CHUNK_SIZE * 2)]\<rparr>"
  have c2: "conn ?w2 = Some c" using pc by simp
  have "\<exists>w'. deliver (send_outcome inp) payload ?w2 = Inr w'" for payload
    using assms(2) deliver_sent [OF c2] deliver_reconnect [OF c2]
    by (auto simp: recoverable_def send_fails_def)
  then show ?thesis
    unfolding iteration_unfold [OF w1(1) pc(1)] by simp
qed

lemma iteration_Inr:
  assumes "ready w" and "iteration P inp w = Inr w'"
  shows "ready w' \<and> (\<exists>es. trace w' = trace w @ es
      \<and> sent_payloads es = (if full_read inp then [denoised_payload P (chunk inp)] else [])
      \<and> length (listen_calls es) = (if full_read inp \<and> send_fails inp then 1 else 0)
      \<and> length (close_calls es) = (if full_read inp \<and> send_fails inp then 1 else 0))"
proof -
  from check_frequency_ready [OF assms(1)] obtain w1 where
    w1: "check_frequency w = Inr w1" "ready w1"
    by blast
  from w1(2) obtain p c where pc: "proc w1 = Some p" "conn w1 = Some c"
    by (auto elim: readyE)
  from check_frequency_events [OF w1(1)] obtain es1 where
    es1: "trace w1 = trace w @ es1" "sent_payloads es1 = []" "listen_calls es1 = []"
      "close_calls es1 = []"
    by blast
  note it = iteration_unfold [OF w1(1) pc(1), of P inp]
  show ?thesis
  proof (cases "full_read inp")
    case False
    with it assms(2) have e: "w' = w1\<lparr>trace := trace w1 @ [Read p (length (pipe_bytes inp))]\<rparr>"
      by simp
    have "ready w'" unfolding e by (rule ready_read [OF w1(2)])
    moreover have "trace w' = trace w @ (es1 @ [Read p (length (pipe_bytes inp))])"
      by (simp add: e es1)
    moreover have "sent_payloads (es1 @ [Read p (length (pipe_bytes inp))]) = []"
      "listen_calls (es1 @ [Read p (length (pipe_bytes inp))]) = []"
      "close_calls (es1 @ [Read p (length (pipe_bytes inp))]) = []"
      by (simp_all add: sent_payloads_append listen_calls_append close_calls_append es1)
    ultimately show ?thesis using False
      by (intro conjI exI [of _ "es1 @ [Read p (length (pipe_bytes inp))]"]) simp_all
  next
    case True
    let ?w2 = "w1\<lparr>trace := trace w1 @ [Read p (CHUNK_SIZE * 2)]\<rparr>"
    let ?pl = "denoised_payload P (chunk inp)"
    have r2: "ready ?w2" by (rule ready_read [OF w1(2)])
    have c2: "conn ?w2 = Some c" using pc by simp
    from it True assms(2) have d: "deliver (send_outcome inp) ?pl ?w2 = Inr w'"
      by simp
    show ?thesis
    proof (cases "send_outcome inp")
      case None
      with d deliver_sent [OF c2, of ?pl] have
        e: "w' = ?w2\<lparr>trace := trace ?w2 @ [Sendall c ?pl]\<rparr>"
        by simp
      have "ready w'" unfolding e by (rule ready_sent [OF r2])
      moreover have "trace w' = trace w @ (es1 @ [Read p (CHUNK_SIZE * 2), Sendall c ?pl])"
        by (simp add: e es1)
      moreover have "sent_payloads (es1 @ [Read p (CHUNK_SIZE * 2), Sendall c ?pl]) = [?pl]"
        "listen_calls (es1 @ [Read p (CHUNK_SIZE * 2), Sendall c ?pl]) = []"
        "close_calls (es1 @ [Read p (CHUNK_SIZE * 2), Sendall c ?pl]) = []"
        by (simp_all add: sent_payloads_append listen_calls_append close_calls_append es1)
      moreover have "\<not> send_fails inp" using None by (simp add: send_fails_def)
      ultimately show ?thesis using True
        by (intro conjI exI [of _ "es1 @ [Read p (CHUNK_SIZE * 2), Sendall c ?pl]"]) simp_all
    next
      case (Some e)
      show ?thesis
      proof (cases "e = BrokenPipeError \<or> e = ConnectionResetError")
        case False
        with d Some deliver_other [OF c2, of e ?pl] show ?thesis by simp
      next
        case fails: True
        let ?s = "length (socks_after (trace ?w2))"
        let ?es2 = "[Sendall c ?pl, Print Disconnected, Close c, Socket ?s, Bind ?s PORT,
               Listen ?s, Print (Waiting_for_connection PORT), Accept ?s (Suc ?s),
               Print Connected, Dealloc ?s]"
        from d Some deliver_reconnect [OF c2 fails, of ?pl] have
          e': "w' = ?w2\<lparr>conn := Some (Suc ?s), trace := trace ?w2 @ ?es2\<rparr>"
          by simp
        have "ready w'" unfolding e' by (rule ready_reconnect [OF r2 c2])
        moreover have "trace w' = trace w @ (es1 @ Read p (CHUNK_SIZE * 2) # ?es2)"
          by (simp add: e' es1)
        moreover have "sent_payloads (es1 @ Read p (CHUNK_SIZE * 2) # ?es2) = [?pl]"
          "length (listen_calls (es1 @ Read p (CHUNK_SIZE * 2) # ?es2)) = 1"
          "length (close_calls (es1 @ Read p (CHUNK_SIZE * 2) # ?es2)) = 1"
          by (simp_all add: sent_payloads_append listen_calls_append close_calls_append es1)
        moreover have "send_fails inp" using Some fails by (simp add: send_fails_def)
        ultimately show ?thesis using True
          by (intro conjI exI [of _ "es1 @ Read p (CHUNK_SIZE * 2) # ?es2"]) simp_all
      qed
    qed
  qed
qed

lemma run_ok:
  "ready w \<Longrightarrow> list_all recoverable (iterations schedule) \<Longrightarrow> \<exists>w'. run P schedule w = Inr w'"
proof (induction schedule arbitrary: w)
  case Nil
  then show ?case by simp
next
  case (Cons a rest)
  show ?case
  proof (cases a)
    case (Operator line)
    have "ready (frequency_input P line w)"
      by (rule frequency_input_ready [OF Cons.prems(1)])
    moreover have "\<not> terminate_flag w"
      using Cons.prems(1) by (auto elim: readyE)
    moreover have "list_all recoverable (iterations rest)"
      using Cons.prems(2) Operator by simp
    ultimately show ?thesis
      using Cons.IH [of "frequency_input P line w"] Operator by simp
  next
    case (Iterate inp)
    have nt: "\<not> terminate_flag w"
      using Cons.prems(1) by (auto elim: readyE)
    have rec: "recoverable inp" "list_all recoverable (iterations rest)"
      using Cons.prems(2) Iterate by simp_all
    from iteration_ok [OF Cons.prems(1) rec(1)] obtain w1 where
      w1: "iteration P inp w = Inr w1"
      by blast
    from iteration_Inr [OF Cons.prems(1) w1] have "ready w1" by blast
    from Cons.IH [OF this rec(2)] show ?thesis
      using Iterate nt w1 by simp
  qed
qed

lemma run_Inr:
  "ready w \<Longrightarrow> run P schedule w = Inr w' \<Longrightarrow>
   ready w' \<and> (\<exists>es. trace w' = trace w @ es
      \<and> sent_payloads es
          = map (\<lambda>inp. denoised_payload P (chunk inp)) (filter full_read (iterations schedule))
      \<and> length (listen_calls es)
          = length (filter (\<lambda>inp. full_read inp \<and> send_fails inp) (iterations schedule))
      \<and> length (close_calls es)
          = length (filter (\<lambda>inp. full_read inp \<and> send_fails inp) (iterations schedule)))"
proof (induction schedule arbitrary: w)
  case Nil
  then show ?case by simp
next
  case (Cons a rest)
  have nt: "\<not> terminate_flag w"
    using Cons.prems(1) by (auto elim: readyE)
  show ?case
  proof (cases a)
    case (Operator line)
    let ?w1 = "frequency_input P line w"
    have r1: "ready ?w1"
      by (rule frequency_input_ready [OF Cons.prems(1)])
    have "run P rest ?w1 = Inr w'"
      using Cons.prems(2) Operator nt by simp
    from Cons.IH [OF r1 this] obtain es where
      es: "ready w'" "trace w' = trace ?w1 @ es"
        "sent_payloads es
          = map (\<lambda>inp. denoised_payload P (chunk inp)) (filter full_read (iterations rest))"
        "length (listen_calls es)
          = length (filter (\<lambda>inp. full_read inp \<and> send_fails inp) (iterations rest))"
        "length (close_calls es)
          = length (filter (\<lambda>inp. full_read inp \<and> send_fails inp) (iterations rest))"
      by blast
    from frequency_input_events [of P line w] obtain es0 where
      es0: "trace ?w1 = trace w @ es0" "sent_payloads es0 = []" "listen_calls es0 = []"
        "close_calls es0 = []"
      by blast
    have "trace w' = trace w @ (es0 @ es)"
      using es(2) es0(1) by simp
    moreover have "sent_payloads (es0 @ es)
          = map (\<lambda>inp. denoised_payload P (chunk inp)) (filter full_read (iterations (a # rest)))"
      using es(3) es0(2) Operator by (simp add: sent_payloads_append)
    moreover have "length (listen_calls (es0 @ es))
          = length (filter (\<lambda>inp. full_read inp \<and> send_fails inp) (iterations (a # rest)))"
      using es(4) es0(3) Operator by (simp add: listen_calls_append)
    moreover have "length (close_calls (es0 @ es))
          = length (filter (\<lambda>inp. full_read inp \<and> send_fails inp) (iterations (a # rest)))"
      using es(5) es0(4) Operator by (simp add: close_calls_append)
    ultimately show ?thesis using es(1) by blast
  next
    case (Iterate inp)
    from Cons.prems(2) Iterate nt obtain w1 where
      w1: "iteration P inp w = Inr w1" "run P rest w1 = Inr w'"
      by (auto split: sum.splits)
    from iteration_Inr [OF Cons.prems(1) w1(1)] obtain es0 where
      r1: "ready w1" and
      es0: "trace w1 = trace w @ es0"
        "sent_payloads es0 = (if full_read inp then [denoised_payload P (chunk inp)] else [])"
        "length (listen_calls es0) = (if full_read inp \<and> send_fails inp then 1 else 0)"
        "length (close_calls es0) = (if full_read inp \<and> send_fails inp then 1 else 0)"
      by blast
    from Cons.IH [OF r1 w1(2)] obtain es where
      es: "ready w'" "trace w' = trace w1 @ es"
        "sent_payloads es
          = map (\<lambda>inp. denoised_payload P (chunk inp)) (filter full_read (iterations rest))"
        "length (listen_calls es)
          = length (filter (\<lambda>inp. full_read inp \<and> send_fails inp) (iterations rest))"
        "length (close_calls es)
          = length (filter (\<lambda>inp. full_read inp \<and> send_fails inp) (iterations rest))"
      by blast
    have "trace w' = trace w @ (es0 @ es)"
      using es(2) es0(1) by simp
    moreover have "sent_payloads (es0 @ es)
          = map (\<lambda>inp. denoised_payload P (chunk inp)) (filter full_read (iterations (a # rest)))"
      using es(3) es0(2) Iterate by (simp add: sent_payloads_append)
    moreover have "length (listen_calls (es0 @ es))
          = length (filter (\<lambda>inp. full_read inp \<and> send_fails inp) (iterations (a # rest)))"
      using es(4) es0(3) Iterate by (simp add: listen_calls_append)
    moreover have "length (close_calls (es0 @ es))
          = length (filter (\<lambda>inp. full_read inp \<and> send_fails inp) (iterations (a # rest)))"
      using es(5) es0(4) Iterate by (simp add: close_calls_append)
    ultimately show ?thesis using es(1) by blast
  qed
qed

lemma queued_requests:
  "frequency_input_loop exact_platform (map codepoints [''101.0'', ''102.5'', ''103.0'']) (startup initial_world) =
     \<lparr>current_freq = 102000000, proc = Some 0, conn = Some 1,
      freq_queue = [101000000, 102500000, 103000000], terminate_flag = False,
      trace = [Print (Starting_rtl_sdr 102000000), Popen 0 102000000, Socket 0, Bind 0 9000,
               Listen 0, Print (Waiting_for_connection 9000), Accept 0 1, Print Connected,
               Dealloc 0]\<rparr>"
  by (simp add: startup_initial frequency_input_def strip_def is_space_def decimal_of_str_def
      is_digit_def digits_value_def exact_platform_def codepoints_def)

lemma restarts_append: "trace w' = trace w @ es \<Longrightarrow> restarts w w' = popen_freqs es"
  by (simp add: restarts_def)

text \<open>
  C1, amended: when the queue holds pending requests and the last one differs from the
  current frequency, one drain restarts the capture process once for every queued value that
  differs from the value before it (from the current frequency, for the first queued value),
  in the order of the queue: the frequencies of the restarts are the queued values with
  adjacent repetitions removed. There is at least one restart, the last restart is at the last
  queued value, which becomes the current frequency, and the queue is left empty.
\<close>

theorem check_frequency_restarts:
  assumes "proc w = Some p" and "freq_queue w \<noteq> []" and "last (freq_queue w) \<noteq> current_freq w"
  shows "\<exists>w'. check_frequency w = Inr w'
      \<and> restarts w w' = tl (remdups_adj (current_freq w # freq_queue w))
      \<and> restarts w w' \<noteq> [] \<and> last (restarts w w') = last (freq_queue w)
      \<and> current_freq w' = last (freq_queue w) \<and> freq_queue w' = []"
proof -
  let ?q = "freq_queue w"
  let ?r = "remdups_adj (current_freq w # ?q)"
  from drain_ok [OF assms(1), of ?q] obtain w' where d: "drain ?q w = Inr w'"
    by blast
  then have 1: "check_frequency w = Inr w'"
    by (simp add: check_frequency_def)
  from drain_events [OF d] obtain es where
    es: "trace w' = trace w @ es" "popen_freqs es = tl ?r"
    by blast
  have 2: "restarts w w' = tl ?r"
    using restarts_append [OF es(1)] es(2) by simp
  have r: "?r = current_freq w # tl ?r"
    by (rule remdups_adj_tl_Cons [symmetric])
  have l: "last ?r = last ?q"
    using assms(2) by simp
  have 3: "tl ?r \<noteq> []"
  proof
    assume "tl ?r = []"
    with r have "?r = [current_freq w]" by simp
    with l assms(3) show False by simp
  qed
  have 4: "last (tl ?r) = last ?q"
  proof -
    have "last (tl ?r) = last (current_freq w # tl ?r)"
      by (simp only: last.simps 3 if_False)
    also have "\<dots> = last ?r" by (simp only: remdups_adj_tl_Cons)
    also have "\<dots> = last ?q" by (rule l)
    finally show ?thesis .
  qed
  from drain_fields [OF d] assms(2) have 5: "current_freq w' = last ?q" "freq_queue w' = []"
    by simp_all
  have 6: "restarts w w' \<noteq> []" "last (restarts w w') = last ?q"
    using 2 3 4 by simp_all
  from 1 2 5 6 show ?thesis by blast
qed

theorem check_frequency_restarts_witness:
  "\<exists>w'. check_frequency
          (frequency_input_loop exact_platform (map codepoints [''101.0'', ''102.5'', ''103.0''])
            (startup initial_world)) = Inr w'
      \<and> restarts
          (frequency_input_loop exact_platform (map codepoints [''101.0'', ''102.5'', ''103.0''])
            (startup initial_world)) w' = [101000000, 102500000, 103000000]
      \<and> current_freq w' = 103000000"
proof -
  let ?w = "frequency_input_loop exact_platform (map codepoints [''101.0'', ''102.5'', ''103.0''])
              (startup initial_world)"
  have h: "proc ?w = Some 0" "freq_queue ?w \<noteq> []" "last (freq_queue ?w) \<noteq> current_freq ?w"
    unfolding queued_requests by simp_all
  from check_frequency_restarts [OF h] obtain w' where
    w': "check_frequency ?w = Inr w'"
      "restarts ?w w' = tl (remdups_adj (current_freq ?w # freq_queue ?w))"
      "current_freq w' = last (freq_queue ?w)"
    by blast
  have "tl (remdups_adj (current_freq ?w # freq_queue ?w)) = [101000000, 102500000, 103000000]"
    unfolding queued_requests by simp
  moreover have "last (freq_queue ?w) = 103000000"
    unfolding queued_requests by simp
  ultimately show ?thesis
    using w' by (intro exI [of _ w']) simp
qed

text \<open>
  With the requests 101.0, 102.5 and 103.0 MHz queued at the start frequency of 102 MHz, one
  drain restarts the capture process three times, not once.
\<close>

theorem queued_requests_restart_each:
  "map_sum id
     (restarts (frequency_input_loop exact_platform (map codepoints [''101.0'', ''102.5'', ''103.0''])
        (startup initial_world)))
     (check_frequency (frequency_input_loop exact_platform (map codepoints [''101.0'', ''102.5'', ''103.0''])
        (startup initial_world)))
   = Inr [101000000, 102500000, 103000000]"
  unfolding queued_requests
  by (simp add: check_frequency_def change_frequency_eq procs_after_def restarts_def)

theorem change_frequency_kill_wait_start_witness:
  "\<exists>w' p'. change_frequency 103000000 (startup initial_world) = Inr w'
     \<and> trace w' = trace (startup initial_world) @
          [Print (Changing_frequency 103000000), Kill 0, Wait 0,
           Print (Starting_rtl_sdr 103000000), Popen p' 103000000]
     \<and> running_procs (trace w') = [p'] \<and> p' \<noteq> 0"
proof -
  have h: "proc (startup initial_world) = Some 0"
    "running_procs (trace (startup initial_world)) = [0]"
    by (simp_all add: startup_initial running_procs_def procs_after_def running_in_def)
  from change_frequency_kill_wait_start [OF h, of 103000000] show ?thesis
    by blast
qed

lemma iteration_reconnect:
  assumes "ready w" and "full_read inp" and "send_fails inp"
  shows "\<exists>w1 c s es0. iteration P inp w = Inr w1 \<and> conn w = Some c
      \<and> trace w1 = trace w @ es0 @
          [Sendall c (denoised_payload P (chunk inp)), Print Disconnected, Close c,
           Socket s, Bind s PORT, Listen s, Print (Waiting_for_connection PORT),
           Accept s (Suc s), Print Connected, Dealloc s]
      \<and> sent_payloads es0 = [] \<and> listen_calls es0 = [] \<and> close_calls es0 = []
      \<and> conn w1 = Some (Suc s) \<and> c < s \<and> open_socks (trace w1) = [Suc s] \<and> ready w1"
proof -
  from check_frequency_ready [OF assms(1)] obtain w0 where
    w0: "check_frequency w = Inr w0" "ready w0"
    by blast
  from w0(2) obtain p c where pc: "proc w0 = Some p" "conn w0 = Some c"
    "open_socks (trace w0) = [c]"
    by (auto elim: readyE)
  from check_frequency_events [OF w0(1)] obtain es1 where
    es1: "trace w0 = trace w @ es1" "sent_payloads es1 = []" "listen_calls es1 = []"
      "close_calls es1 = []"
    by blast
  have cw: "conn w = Some c"
    using drain_fields [of "freq_queue w" w w0] w0(1) pc(2) by (simp add: check_frequency_def)
  let ?w2 = "w0\<lparr>trace := trace w0 @ [Read p (CHUNK_SIZE * 2)]\<rparr>"
  let ?pl = "denoised_payload P (chunk inp)"
  let ?s = "length (socks_after (trace ?w2))"
  let ?es2 = "[Sendall c ?pl, Print Disconnected, Close c, Socket ?s, Bind ?s PORT,
               Listen ?s, Print (Waiting_for_connection PORT), Accept ?s (Suc ?s),
               Print Connected, Dealloc ?s]"
  let ?w1 = "?w2\<lparr>conn := Some (Suc ?s), trace := trace ?w2 @ ?es2\<rparr>"
  have r2: "ready ?w2" by (rule ready_read [OF w0(2)])
  have c2: "conn ?w2 = Some c" using pc by simp
  from assms(3) obtain e where
    e: "send_outcome inp = Some e" "e = BrokenPipeError \<or> e = ConnectionResetError"
    by (auto simp: send_fails_def)
  have 1: "iteration P inp w = Inr ?w1"
    unfolding iteration_unfold [OF w0(1) pc(1)]
    using assms(2) e(1) deliver_reconnect [OF c2 e(2), of ?pl] by simp
  have rd: "ready ?w1" by (rule ready_reconnect [OF r2 c2])
  have 2: "trace ?w1 = trace w @ (es1 @ [Read p (CHUNK_SIZE * 2)]) @ ?es2"
    by (simp add: es1)
  have 3: "sent_payloads (es1 @ [Read p (CHUNK_SIZE * 2)]) = []"
    "listen_calls (es1 @ [Read p (CHUNK_SIZE * 2)]) = []"
    "close_calls (es1 @ [Read p (CHUNK_SIZE * 2)]) = []"
    by (simp_all add: sent_payloads_append listen_calls_append close_calls_append es1)
  have 4: "conn ?w1 = Some (Suc ?s)" by simp
  have "c \<in> set (open_in (socks_after (trace w0)))"
    using pc(3) by (simp add: open_socks_def)
  then have "c < length (socks_after (trace w0))"
    by (rule open_in_bound)
  then have 5: "c < ?s"
    by (simp add: socks_after_append)
  have 6: "open_socks (trace ?w1) = [Suc ?s]"
    using rd 4 by (auto elim: readyE)
  from 1 cw 2 3 4 5 6 rd show ?thesis by blast
qed

text \<open>
  C2: when the send of a chunk fails with a broken pipe or a connection reset, the pass
  closes the connection and listens and accepts once more, exactly once; the pass ends
  without an error and so does the run that goes on after it; the new connection is another
  socket than the old one, and the only open one. What is sent after the reconnect are the
  chunks read after it, each one once and in the order of the reads: the chunk whose send
  failed is not sent again.
\<close>

theorem send_failure_reconnects_without_replay:
  assumes "ready w" and "full_read inp" and "send_fails inp"
    and "list_all recoverable (iterations rest)"
  shows "\<exists>w1 w' c s es0 es.
        iteration P inp w = Inr w1 \<and> run P (Iterate inp # rest) w = Inr w'
      \<and> conn w = Some c
      \<and> trace w1 = trace w @ es0 @
          [Sendall c (denoised_payload P (chunk inp)), Print Disconnected, Close c,
           Socket s, Bind s PORT, Listen s, Print (Waiting_for_connection PORT),
           Accept s (Suc s), Print Connected, Dealloc s]
      \<and> sent_payloads es0 = [] \<and> listen_calls es0 = [] \<and> close_calls es0 = []
      \<and> conn w1 = Some (Suc s) \<and> c < s \<and> open_socks (trace w1) = [Suc s]
      \<and> trace w' = trace w1 @ es
      \<and> sent_payloads es
          = map (\<lambda>i. denoised_payload P (chunk i)) (filter full_read (iterations rest))"
proof -
  from iteration_reconnect [OF assms(1,2,3), of P] obtain w1 c s es0 where
    a: "iteration P inp w = Inr w1" "conn w = Some c"
      "trace w1 = trace w @ es0 @
          [Sendall c (denoised_payload P (chunk inp)), Print Disconnected, Close c,
           Socket s, Bind s PORT, Listen s, Print (Waiting_for_connection PORT),
           Accept s (Suc s), Print Connected, Dealloc s]"
      "sent_payloads es0 = []" "listen_calls es0 = []" "close_calls es0 = []"
      "conn w1 = Some (Suc s)" "c < s" "open_socks (trace w1) = [Suc s]" "ready w1"
    by blast
  from run_ok [OF a(10) assms(4), of P] obtain w' where w': "run P rest w1 = Inr w'"
    by blast
  have nt: "\<not> terminate_flag w"
    using assms(1) by (auto elim: readyE)
  have b: "run P (Iterate inp # rest) w = Inr w'"
    using nt a(1) w' by simp
  from run_Inr [OF a(10) w'] obtain es where
    es: "trace w' = trace w1 @ es"
      "sent_payloads es
          = map (\<lambda>i. denoised_payload P (chunk i)) (filter full_read (iterations rest))"
    by blast
  from a(1) b a(2-9) es show ?thesis by blast
qed

theorem send_failure_reconnects_without_replay_witness:
  "\<exists>w'. run exact_platform
          [Iterate \<lparr>pipe_bytes = replicate 8192 0, send_outcome = Some BrokenPipeError\<rparr>,
           Iterate \<lparr>pipe_bytes = replicate 8192 255, send_outcome = None\<rparr>]
          (startup initial_world) = Inr w'
      \<and> sent_payloads (trace w')
          = [denoised_payload exact_platform
               (chunk \<lparr>pipe_bytes = replicate 8192 0, send_outcome = Some BrokenPipeError\<rparr>),
             denoised_payload exact_platform
               (chunk \<lparr>pipe_bytes = replicate 8192 255, send_outcome = None\<rparr>)]"
proof -
  define i1 where "i1 = \<lparr>pipe_bytes = replicate 8192 0, send_outcome = Some BrokenPipeError\<rparr>"
  define i2 where "i2 = \<lparr>pipe_bytes = replicate 8192 255, send_outcome = None\<rparr>"
  define w0 where "w0 = startup initial_world"
  define pl where "pl = (\<lambda>i. denoised_payload exact_platform (chunk i))"
  have h: "ready w0" "full_read i1" "send_fails i1" "list_all recoverable (iterations [Iterate i2])"
    by (simp_all add: ready_startup w0_def i1_def i2_def full_read_def send_fails_def
        recoverable_def CHUNK_SIZE_def)
  have f2: "filter full_read (iterations [Iterate i2]) = [i2]"
    by (simp add: i2_def full_read_def CHUNK_SIZE_def)
  have s0: "sent_payloads (trace w0) = []"
    by (simp add: w0_def startup_initial)
  from send_failure_reconnects_without_replay [OF h, of exact_platform]
  have "\<exists>w'. run exact_platform [Iterate i1, Iterate i2] w0 = Inr w'
      \<and> sent_payloads (trace w') = [pl i1, pl i2]"
  proof (elim exE conjE)
    fix w1 w' c s es0 es
    assume a: "run exact_platform [Iterate i1, Iterate i2] w0 = Inr w'"
      "trace w1 = trace w0 @ es0 @
          [Sendall c (denoised_payload exact_platform (chunk i1)), Print Disconnected, Close c,
           Socket s, Bind s PORT, Listen s, Print (Waiting_for_connection PORT),
           Accept s (Suc s), Print Connected, Dealloc s]"
      "sent_payloads es0 = []"
      "trace w' = trace w1 @ es"
      "sent_payloads es = map (\<lambda>i. denoised_payload exact_platform (chunk i))
          (filter full_read (iterations [Iterate i2]))"
    have "sent_payloads (trace w') = [pl i1, pl i2]"
      unfolding a(4) a(2) sent_payloads_append a(3) a(5) f2 s0 pl_def by simp
    with a(1) show ?thesis by blast
  qed
  then show ?thesis
    unfolding i1_def i2_def w0_def pl_def .
qed

text \<open>
  C6: when the read returns fewer than \<open>2 * CHUNK_SIZE\<close> bytes, the pass ends after the
  read: it sends nothing, it ends without an error, and the loop goes on with the next pass.
  The state after the pass keeps of the short read only its length, in the trace; whatever
  the next pass sends is the chunk of its own read.
\<close>

theorem short_read_skips_chunk:
  assumes "ready w" and "length (pipe_bytes short) < CHUNK_SIZE * 2"
  shows "\<exists>w1 p es. check_frequency w = Inr w1 \<and> proc w1 = Some p
      \<and> trace w1 = trace w @ es \<and> sent_payloads es = []
      \<and> iteration P short w = Inr (emit (Read p (length (pipe_bytes short))) w1)
      \<and> run P (Iterate short # rest) w
          = run P rest (emit (Read p (length (pipe_bytes short))) w1)
      \<and> ready (emit (Read p (length (pipe_bytes short))) w1)
      \<and> (\<forall>nxt w'. iteration P nxt (emit (Read p (length (pipe_bytes short))) w1) = Inr w' \<longrightarrow>
            (\<exists>es'. trace w' = trace w1 @ Read p (length (pipe_bytes short)) # es'
               \<and> sent_payloads es'
                   = (if full_read nxt then [denoised_payload P (chunk nxt)] else [])))"
proof -
  let ?n = "length (pipe_bytes short)"
  from check_frequency_ready [OF assms(1)] obtain w1 where
    w1: "check_frequency w = Inr w1" "ready w1"
    by blast
  from w1(2) obtain p where p: "proc w1 = Some p"
    by (auto elim: readyE)
  from check_frequency_events [OF w1(1)] obtain es where
    es: "trace w1 = trace w @ es" "sent_payloads es = []"
    by blast
  let ?w2 = "emit (Read p ?n) w1"
  have e: "?w2 = w1\<lparr>trace := trace w1 @ [Read p ?n]\<rparr>"
    by (simp add: emit_def)
  have nf: "\<not> full_read short"
    using assms(2) by (simp add: full_read_def)
  have 1: "iteration P short w = Inr ?w2"
    unfolding iteration_unfold [OF w1(1) p] e using nf by simp
  have nt: "\<not> terminate_flag w"
    using assms(1) by (auto elim: readyE)
  have 2: "run P (Iterate short # rest) w = run P rest ?w2"
    using nt 1 by simp
  have 3: "ready ?w2"
    unfolding e by (rule ready_read [OF w1(2)])
  have 4: "\<exists>es'. trace w' = trace w1 @ Read p ?n # es'
               \<and> sent_payloads es'
                   = (if full_read nxt then [denoised_payload P (chunk nxt)] else [])"
    if "iteration P nxt ?w2 = Inr w'" for nxt w'
  proof -
    from iteration_Inr [OF 3 that] obtain es' where
      "trace w' = trace ?w2 @ es'"
      "sent_payloads es' = (if full_read nxt then [denoised_payload P (chunk nxt)] else [])"
      by blast
    then show ?thesis by (intro exI [of _ es']) simp
  qed
  from w1(1) p es 1 2 3 4 show ?thesis by blast
qed

theorem short_read_skips_chunk_witness:
  "\<exists>w1 p. check_frequency (startup initial_world) = Inr w1 \<and> proc w1 = Some p
      \<and> iteration exact_platform \<lparr>pipe_bytes = [1, 2, 3], send_outcome = None\<rparr>
            (startup initial_world)
          = Inr (emit (Read p 3) w1)"
proof -
  have h: "length (pipe_bytes \<lparr>pipe_bytes = [1, 2, 3 :: 8 word], send_outcome = None\<rparr>)
           < CHUNK_SIZE * 2"
    by (simp add: CHUNK_SIZE_def)
  from short_read_skips_chunk [OF ready_startup h, of exact_platform "[]"]
  show ?thesis
  proof (elim exE conjE)
    fix w1 p es
    assume "check_frequency (startup initial_world) = Inr w1" "proc w1 = Some p"
      "iteration exact_platform \<lparr>pipe_bytes = [1, 2, 3], send_outcome = None\<rparr>
          (startup initial_world)
       = Inr (emit (Read p (length (pipe_bytes \<lparr>pipe_bytes = [1, 2, 3 :: 8 word],
                                               send_outcome = None\<rparr>))) w1)"
    then show ?thesis by (intro exI [of _ w1] exI [of _ p]) simp
  qed
qed

subsection \<open>The interrupt\<close>

text \<open>
  Between two passes of the loop the handler ends the one running process and closes the one
  open socket; the process is killed, not reaped. The lists of points end in the results of
  the pieces of code that they follow.
\<close>

lemma on_keyboard_interrupt_eq:
  "proc w = Some p \<Longrightarrow> conn w = Some c \<Longrightarrow>
   on_keyboard_interrupt w =
     w\<lparr>terminate_flag := True,
       trace := trace w @ [Print Exiting, Kill p, Close c, Exit 0]\<rparr>"
  by (simp add: on_keyboard_interrupt_def proc_kill_def conn_close_def emit_def Let_def)

lemma startup_points_initial:
  "startup_points initial_world =
     [\<lparr>current_freq = 102000000, proc = None, conn = None, freq_queue = [],
       terminate_flag = False, trace = [Print (Starting_rtl_sdr 102000000)]\<rparr>,
      \<lparr>current_freq = 102000000, proc = None, conn = None, freq_queue = [],
       terminate_flag = False,
       trace = [Print (Starting_rtl_sdr 102000000), Popen 0 102000000]\<rparr>,
      \<lparr>current_freq = 102000000, proc = Some 0, conn = None, freq_queue = [],
       terminate_flag = False,
       trace = [Print (Starting_rtl_sdr 102000000), Popen 0 102000000]\<rparr>,
      \<lparr>current_freq = 102000000, proc = Some 0, conn = None, freq_queue = [],
       terminate_flag = False,
       trace = [Print (Starting_rtl_sdr 102000000), Popen 0 102000000, Socket 0]\<rparr>,
      \<lparr>current_freq = 102000000, proc = Some 0, conn = None, freq_queue = [],
       terminate_flag = False,
       trace = [Print (Starting_rtl_sdr 102000000), Popen 0 102000000, Socket 0, Bind 0 9000]\<rparr>,
      \<lparr>current_freq = 102000000, proc = Some 0, conn = None, freq_queue = [],
       terminate_flag = False,
       trace = [Print (Starting_rtl_sdr 102000000), Popen 0 102000000, Socket 0, Bind 0 9000,
                Listen 0]\<rparr>,
      \<lparr>current_freq = 102000000, proc = Some 0, conn = None, freq_queue = [],
       terminate_flag = False,
       trace = [Print (Starting_rtl_sdr 102000000), Popen 0 102000000, Socket 0, Bind 0 9000,
                Listen 0, Print (Waiting_for_connection 9000)]\<rparr>,
      \<lparr>current_freq = 102000000, proc = Some 0, conn = None, freq_queue = [],
       terminate_flag = False,
       trace = [Print (Starting_rtl_sdr 102000000), Popen 0 102000000, Socket 0, Bind 0 9000,
                Listen 0, Print (Waiting_for_connection 9000), Accept 0 1]\<rparr>,
      \<lparr>current_freq = 102000000, proc = Some 0, conn = None, freq_queue = [],
       terminate_flag = False,
       trace = [Print (Starting_rtl_sdr 102000000), Popen 0 102000000, Socket 0, Bind 0 9000,
                Listen 0, Print (Waiting_for_connection 9000), Accept 0 1, Print Connected]\<rparr>,
      \<lparr>current_freq = 102000000, proc = Some 0, conn = None, freq_queue = [],
       terminate_flag = False,
       trace = [Print (Starting_rtl_sdr 102000000), Popen 0 102000000, Socket 0, Bind 0 9000,
                Listen 0, Print (Waiting_for_connection 9000), Accept 0 1, Print Connected,
                Dealloc 0]\<rparr>,
      \<lparr>current_freq = 102000000, proc = Some 0, conn = Some 1, freq_queue = [],
       terminate_flag = False,
       trace = [Print (Starting_rtl_sdr 102000000), Popen 0 102000000, Socket 0, Bind 0 9000,
                Listen 0, Print (Waiting_for_connection 9000), Accept 0 1, Print Connected,
                Dealloc 0]\<rparr>]"
  by (simp add: startup_points_def start_rtl_sdr_points_def start_tcp_server_points_def
      start_rtl_sdr_eq start_tcp_server_eq initial_world_def emit_def procs_after_def
      socks_after_def DEFAULT_FREQ_def PORT_def Let_def)

lemma interrupt_between_passes:
  assumes "ready w"
  shows "\<exists>p c. trace (on_keyboard_interrupt w) = trace w @ [Print Exiting, Kill p, Close c, Exit 0]
      \<and> running_procs (trace w) = [p] \<and> open_socks (trace w) = [c]
      \<and> running_procs (trace (on_keyboard_interrupt w)) = []
      \<and> open_socks (trace (on_keyboard_interrupt w)) = []
      \<and> procs_after (trace (on_keyboard_interrupt w)) ! p = Killed"
proof -
  from assms obtain p c where
    h: "proc w = Some p" "conn w = Some c" "running_procs (trace w) = [p]"
      "open_socks (trace w) = [c]"
    by (auto elim: readyE)
  let ?tr = "trace w"
  let ?w' = "on_keyboard_interrupt w"
  have e: "?w' = w\<lparr>terminate_flag := True,
       trace := ?tr @ [Print Exiting, Kill p, Close c, Exit 0]\<rparr>"
    by (rule on_keyboard_interrupt_eq [OF h(1,2)])
  have r: "set (running_in (procs_after ?tr)) = {p}"
    using h(3) by (simp add: running_procs_def)
  then have pr: "p < length (procs_after ?tr)" "procs_after ?tr ! p = Running"
    by (auto simp: set_running_in)
  have o: "set (open_in (socks_after ?tr)) = {c}"
    using h(4) by (simp add: open_socks_def)
  have 1: "trace ?w' = ?tr @ [Print Exiting, Kill p, Close c, Exit 0]"
    by (simp add: e)
  have "set (running_in (procs_after (trace ?w'))) = {}"
    unfolding 1 using r by (simp add: procs_after_append running_Kill del: os_proc.simps(2))
  then have 2: "running_procs (trace ?w') = []"
    by (simp add: running_procs_def)
  have "set (open_in (socks_after (trace ?w'))) = {}"
    unfolding 1 using o by (simp add: socks_after_append open_Close del: os_sock.simps(3))
  then have 3: "open_socks (trace ?w') = []"
    by (simp add: open_socks_def)
  have 4: "procs_after (trace ?w') ! p = Killed"
    unfolding 1 using pr by (simp add: procs_after_append)
  from 1 h(3,4) 2 3 4 show ?thesis by blast
qed

lemma change_frequency_points_last:
  assumes "change_frequency f w = Inr w'"
  shows "change_frequency_points f w \<noteq> [] \<and> last (change_frequency_points f w) = w'"
proof -
  from change_frequency_Inr [OF assms] obtain p where p: "proc w = Some p"
    by blast
  with assms show ?thesis
    by (simp add: change_frequency_def change_frequency_points_def Let_def emit_def
        start_rtl_sdr_points_def split: prod.splits)
qed

lemma drain_points_last: "drain q w = Inr w' \<Longrightarrow> last (w # drain_points q w) = w'"
proof (induction q arbitrary: w)
  case Nil
  then show ?case by simp
next
  case (Cons f rest)
  let ?w1 = "w\<lparr>freq_queue := rest\<rparr>"
  show ?case
  proof (cases "f = current_freq w")
    case True
    with Cons.prems have "drain rest ?w1 = Inr w'" by (simp add: Let_def)
    from Cons.IH [OF this] True show ?thesis by (simp add: Let_def)
  next
    case False
    with Cons.prems obtain w2 where
      w2: "change_frequency f ?w1 = Inr w2" and d: "drain rest w2 = Inr w'"
      by (auto simp: Let_def split: sum.splits)
    from change_frequency_points_last [OF w2] have
      c: "change_frequency_points f ?w1 \<noteq> []" "last (change_frequency_points f ?w1) = w2"
      by simp_all
    from Cons.IH [OF d] have "last (w2 # drain_points rest w2) = w'" .
    with c False w2 show ?thesis
      by (auto simp: Let_def last_append split: if_splits)
  qed
qed

lemma start_tcp_server_points_last:
  "last (start_tcp_server_points port w) = snd (start_tcp_server port w)"
  by (simp add: start_tcp_server_points_def start_tcp_server_def Let_def)

lemma start_rtl_sdr_points_last:
  "last (start_rtl_sdr_points f w) = snd (start_rtl_sdr f w)"
  by (simp add: start_rtl_sdr_points_def start_rtl_sdr_def Let_def)

lemma startup_points_last: "last (startup_points w) = startup w"
  by (simp add: startup_points_def startup_def Let_def split: prod.splits)

lemma deliver_points_last:
  "deliver outcome payload w = Inr w' \<Longrightarrow>
   deliver_points outcome payload w \<noteq> [] \<and> last (deliver_points outcome payload w) = w'"
  by (auto simp: deliver_def deliver_points_def Let_def split: option.splits prod.splits if_splits)

lemma iteration_points_last:
  assumes "iteration P inp w = Inr w'"
  shows "iteration_points P inp w \<noteq> [] \<and> last (iteration_points P inp w) = w'"
proof -
  from assms obtain w1 p where
    w1: "check_frequency w = Inr w1" "proc w1 = Some p"
    by (auto simp: iteration_def split: sum.splits option.splits)
  define raw where "raw = take (CHUNK_SIZE * 2) (pipe_bytes inp)"
  define w2 where "w2 = emit (Read p (length raw)) w1"
  have it: "iteration P inp w =
      (if length raw < CHUNK_SIZE * 2 then Inr w2
       else deliver (send_outcome inp) (denoised_payload P raw) w2)"
    unfolding raw_def w2_def
    by (simp only: iteration_def w1 Let_def sum.case option.case)
  have pts: "iteration_points P inp w =
      drain_points (freq_queue w) w @
      (w2 # (if length raw < CHUNK_SIZE * 2 then []
             else deliver_points (send_outcome inp) (denoised_payload P raw) w2))"
    unfolding raw_def w2_def
    by (simp only: iteration_points_def w1 Let_def sum.case option.case)
  show ?thesis
  proof (cases "length raw < CHUNK_SIZE * 2")
    case True
    with assms it pts show ?thesis by simp
  next
    case False
    with assms it have "deliver (send_outcome inp) (denoised_payload P raw) w2 = Inr w'"
      by simp
    from deliver_points_last [OF this] False pts show ?thesis
      by simp
  qed
qed

lemma run_points_last: "run P schedule w = Inr w' \<Longrightarrow> last (w # run_points P schedule w) = w'"
proof (induction schedule arbitrary: w)
  case Nil
  then show ?case by simp
next
  case (Cons a rest)
  show ?case
  proof (cases a)
    case (Operator line)
    let ?w1 = "if terminate_flag w then w else frequency_input P line w"
    from Cons.prems Operator have "run P rest ?w1 = Inr w'" by simp
    from Cons.IH [OF this] Operator show ?thesis by (simp add: Let_def)
  next
    case (Iterate inp)
    show ?thesis
    proof (cases "terminate_flag w")
      case True
      with Cons.prems Iterate have "run P rest w = Inr w'" by simp
      from Cons.IH [OF this] True Iterate show ?thesis by simp
    next
      case False
      with Cons.prems Iterate obtain w1 where
        w1: "iteration P inp w = Inr w1" "run P rest w1 = Inr w'"
        by (auto split: sum.splits)
      from iteration_points_last [OF w1(1)] Cons.IH [OF w1(2)] False Iterate w1(1)
      show ?thesis by (auto simp: last_append split: if_splits)
    qed
  qed
qed

lemma program_points_last:
  assumes "iq_processing_loop P schedule initial_world = Inr w"
  shows "last (program_points P schedule) = w"
proof -
  from assms have r: "run P schedule (startup initial_world) = Inr w"
    by (simp add: iq_processing_loop_def)
  have n: "startup_points initial_world \<noteq> []"
    by (simp add: startup_points_initial)
  from run_points_last [OF r] startup_points_last [of initial_world] n show ?thesis
    by (auto simp: program_points_def last_append split: if_splits)
qed

lemma interrupt_before_assignment_leaves_process_running:
  "map_sum id (running_procs \<circ> trace)
     (main exact_platform
        [Operator (codepoints ''103.0''), Iterate \<lparr>pipe_bytes = [], send_outcome = None\<rparr>] 19)
   = Inr [1]"
  by (simp add: main_def program_points_def startup_points_initial startup_initial
      frequency_input_def strip_def is_space_def decimal_of_str_def is_digit_def digits_value_def
      exact_platform_def codepoints_def iteration_points_def iteration_def check_frequency_def
      change_frequency_points_def change_frequency_eq start_rtl_sdr_points_def start_rtl_sdr_eq
      proc_kill_def proc_wait_def emit_def on_keyboard_interrupt_def conn_close_def
      running_procs_def running_in_def procs_after_def Let_def)

lemma interrupt_in_accept_at_reconnect_leaves_socket_open:
  "map_sum id (open_socks \<circ> trace)
     (main exact_platform
        [Iterate \<lparr>pipe_bytes = replicate 8192 0, send_outcome = Some BrokenPipeError\<rparr>] 19)
   = Inr [2]"
  by (simp add: main_def program_points_def startup_points_initial startup_initial
      iteration_points_def iteration_def check_frequency_def deliver_points_def deliver_def
      start_tcp_server_points_def start_tcp_server_eq conn_close_def
      proc_kill_def emit_def on_keyboard_interrupt_def CHUNK_SIZE_def PORT_def
      open_socks_def open_in_def socks_after_def Let_def)

text \<open>
  C8: the handler kills the process that \<^verbatim>\<open>proc\<close> holds and closes the connection
  that \<^verbatim>\<open>conn\<close> holds, and nothing else; it does not wait for the process, as the
  restart does. When the interrupt arrives while \<^verbatim>\<open>start_tcp_server\<close> waits in
  \<^verbatim>\<open>accept\<close> at start-up (point 7 of the run), \<^verbatim>\<open>conn\<close> is still \<^verbatim>\<open>None\<close>:
  the handler kills the capture process and closes no socket, and the program exits with the
  listening socket open and the process ended but not reaped. So the code does not leave "no
  live process handle and no open socket" on this path.
\<close>

theorem interrupt_in_accept_leaves_socket_open:
  "main exact_platform [] 7 =
     Inr \<lparr>current_freq = 102000000, proc = Some 0, conn = None, freq_queue = [],
          terminate_flag = True,
          trace = [Print (Starting_rtl_sdr 102000000), Popen 0 102000000, Socket 0, Bind 0 9000,
                   Listen 0, Print (Waiting_for_connection 9000), Print Exiting, Kill 0,
                   Exit 0]\<rparr>
   \<and> open_socks [Print (Starting_rtl_sdr 102000000), Popen 0 102000000, Socket 0, Bind 0 9000,
                   Listen 0, Print (Waiting_for_connection 9000), Print Exiting, Kill 0,
                   Exit 0] = [0]
   \<and> procs_after [Print (Starting_rtl_sdr 102000000), Popen 0 102000000, Socket 0, Bind 0 9000,
                   Listen 0, Print (Waiting_for_connection 9000), Print Exiting, Kill 0,
                   Exit 0] = [Killed]"
  by (simp add: main_def program_points_def startup_points_initial on_keyboard_interrupt_def
      proc_kill_def emit_def open_socks_def open_in_def socks_after_def procs_after_def)

lemma strip_whitespace: "list_all is_space line \<Longrightarrow> strip line = []"
proof -
  assume "list_all is_space line"
  then have d: "dropWhile is_space line = []"
    by (simp add: dropWhile_eq_Nil_conv list_all_iff)
  show ?thesis unfolding strip_def d by simp
qed

lemma py_int_truncates:
  assumes "py_int (Finite r) = Inr hz"
  shows "\<bar>real_of_int hz\<bar> \<le> \<bar>r\<bar> \<and> \<bar>r\<bar> < \<bar>real_of_int hz\<bar> + 1
       \<and> (0 \<le> r \<longrightarrow> 0 \<le> hz) \<and> (r \<le> 0 \<longrightarrow> hz \<le> 0)"
proof (cases "0 \<le> r")
  case True
  with assms have hz: "hz = \<lfloor>r\<rfloor>" by simp
  have "0 \<le> \<lfloor>r\<rfloor>" using True by simp
  moreover have "real_of_int \<lfloor>r\<rfloor> \<le> r" "r < real_of_int \<lfloor>r\<rfloor> + 1"
    by linarith+
  ultimately show ?thesis using True hz by (simp; linarith)
next
  case False
  with assms have hz: "hz = \<lceil>r\<rceil>" by simp
  have "\<lceil>r\<rceil> \<le> 0" using False by (simp add: ceiling_le_iff)
  moreover have "r \<le> real_of_int \<lceil>r\<rceil>" "real_of_int \<lceil>r\<rceil> < r + 1"
    by linarith+
  ultimately show ?thesis using False hz by (simp; linarith)
qed

text \<open>
  C10: a line that is empty or holds only whitespace (any code points that
  \<^verbatim>\<open>str.strip\<close> removes) is ignored: the state is unchanged, nothing is queued and
  nothing is printed. A line whose stripped text \<^verbatim>\<open>float\<close> reads as a number
  \<open>v\<close>, with the finite product \<open>r\<close> of \<open>v\<close> and \<open>1e6\<close>, queues the integer that
  results from \<open>r\<close> by dropping its fraction: the integer of the sign of \<open>r\<close> whose
  magnitude is the greatest integer not above the magnitude of \<open>r\<close>. A line on which
  \<^verbatim>\<open>float\<close> or \<^verbatim>\<open>int\<close> raises is reported and queues nothing.
\<close>

theorem frequency_input_line:
  "(list_all is_space line \<longrightarrow> frequency_input P line w = w)
   \<and> (strip line \<noteq> [] \<and> float_of_str P (strip line) = Inr v
        \<and> float_mul P v (Finite 1000000) = Finite r \<longrightarrow>
      (\<exists>hz. frequency_input P line w = w\<lparr>freq_queue := freq_queue w @ [hz]\<rparr>
         \<and> \<bar>real_of_int hz\<bar> \<le> \<bar>r\<bar> \<and> \<bar>r\<bar> < \<bar>real_of_int hz\<bar> + 1
         \<and> (0 \<le> r \<longrightarrow> 0 \<le> hz) \<and> (r \<le> 0 \<longrightarrow> hz \<le> 0)))
   \<and> (strip line \<noteq> []
        \<and> (float_of_str P (strip line) = Inl e
           \<or> float_of_str P (strip line) = Inr v
             \<and> py_int (float_mul P v (Finite 1000000)) = Inl e) \<longrightarrow>
      frequency_input P line w = emit (Print Invalid_input) w
      \<and> freq_queue (frequency_input P line w) = freq_queue w)"
proof (intro conjI impI)
  assume "list_all is_space line"
  then show "frequency_input P line w = w"
    by (simp add: frequency_input_def strip_whitespace)
next
  assume a: "strip line \<noteq> [] \<and> float_of_str P (strip line) = Inr v
        \<and> float_mul P v (Finite 1000000) = Finite r"
  obtain hz where hz: "py_int (Finite r) = Inr hz"
    by simp
  have "frequency_input P line w = w\<lparr>freq_queue := freq_queue w @ [hz]\<rparr>"
    using a hz by (simp add: frequency_input_def Let_def)
  with py_int_truncates [OF hz]
  show "\<exists>hz. frequency_input P line w = w\<lparr>freq_queue := freq_queue w @ [hz]\<rparr>
         \<and> \<bar>real_of_int hz\<bar> \<le> \<bar>r\<bar> \<and> \<bar>r\<bar> < \<bar>real_of_int hz\<bar> + 1
         \<and> (0 \<le> r \<longrightarrow> 0 \<le> hz) \<and> (r \<le> 0 \<longrightarrow> hz \<le> 0)"
    by blast
next
  assume a: "strip line \<noteq> []
        \<and> (float_of_str P (strip line) = Inl e
           \<or> float_of_str P (strip line) = Inr v
             \<and> py_int (float_mul P v (Finite 1000000)) = Inl e)"
  then show "frequency_input P line w = emit (Print Invalid_input) w"
    by (auto simp: frequency_input_def Let_def)
  then show "freq_queue (frequency_input P line w) = freq_queue w"
    by simp
qed

theorem frequency_input_line_witness:
  "frequency_input exact_platform [32, 9, 160, 133, 12288] (startup initial_world)
     = startup initial_world
   \<and> frequency_input exact_platform (160 # codepoints ''145.8999999'' @ [8195])
         (startup initial_world)
       = (startup initial_world)\<lparr>freq_queue := [145899999]\<rparr>
   \<and> frequency_input exact_platform (codepoints ''14x'') (startup initial_world)
       = emit (Print Invalid_input) (startup initial_world)"
proof -
  let ?w = "startup initial_world"
  let ?l2 = "160 # codepoints ''145.8999999'' @ [8195]"
  have 1: "frequency_input exact_platform [32, 9, 160, 133, 12288] ?w = ?w"
    using frequency_input_line [of "[32, 9, 160, 133, 12288]" exact_platform ?w]
    by (simp add: is_space_def)
  have s: "strip ?l2 = codepoints ''145.8999999''"
    by (simp add: strip_def is_space_def codepoints_def)
  have f: "float_of_str exact_platform (codepoints ''145.8999999'')
           = Inr (Finite (1458999999 / 10000000))"
    by (simp add: exact_platform_def decimal_of_str_def is_digit_def digits_value_def
        codepoints_def)
  have m: "float_mul exact_platform (Finite (1458999999 / 10000000)) (Finite 1000000)
           = Finite (1458999999 / 10)"
    by (simp add: exact_platform_def)
  have n: "codepoints ''145.8999999'' \<noteq> []"
    by (simp add: codepoints_def)
  have pre: "strip ?l2 \<noteq> []
        \<and> float_of_str exact_platform (strip ?l2) = Inr (Finite (1458999999 / 10000000))
        \<and> float_mul exact_platform (Finite (1458999999 / 10000000)) (Finite 1000000)
            = Finite (1458999999 / 10)"
    unfolding s using f m n by simp
  note t = frequency_input_line
    [of ?l2 exact_platform ?w "Finite (1458999999 / 10000000)" "1458999999 / 10",
      THEN conjunct2, THEN conjunct1]
  from mp [OF t pre] obtain hz where
    hz: "frequency_input exact_platform ?l2 ?w = ?w\<lparr>freq_queue := freq_queue ?w @ [hz]\<rparr>"
      "\<bar>real_of_int hz\<bar> \<le> \<bar>1458999999 / 10\<bar>" "\<bar>1458999999 / 10 :: real\<bar> < \<bar>real_of_int hz\<bar> + 1"
      "0 \<le> (1458999999 / 10 :: real) \<longrightarrow> 0 \<le> hz"
    by blast
  have "0 \<le> hz"
    using hz(4) by simp
  then have "hz \<le> 145899999" "145899999 \<le> hz"
    using hz(2,3) by linarith+
  then have "hz = 145899999"
    by simp
  with hz(1) have 2: "frequency_input exact_platform ?l2 ?w = ?w\<lparr>freq_queue := [145899999]\<rparr>"
    by (simp add: startup_initial)
  have s3: "strip (codepoints ''14x'') = codepoints ''14x''"
    by (simp add: strip_def is_space_def codepoints_def)
  have f3: "float_of_str exact_platform (codepoints ''14x'') = Inl ValueError"
    by (simp add: exact_platform_def decimal_of_str_def is_digit_def codepoints_def)
  have n3: "codepoints ''14x'' \<noteq> []"
    by (simp add: codepoints_def)
  have 3: "frequency_input exact_platform (codepoints ''14x'') ?w = emit (Print Invalid_input) ?w"
    using frequency_input_line [of "codepoints ''14x''" exact_platform ?w _ _ ValueError]
    unfolding s3 using f3 n3 by simp
  from 1 2 3 show ?thesis by simp
qed

lemma iterate_cap_reached:
  "\<not> snd (iterate rule f jac k earlier xk) \<Longrightarrow>
   length (fst (iterate rule f jac k earlier xk)) = length earlier + 1 + k"
  by (induction k arbitrary: earlier xk) (simp_all split: option.splits)

lemma minimize_success:
  "success (minimize rule f x0 jac maxiter) = snd (iterate rule f jac maxiter [] x0)"
  by (simp add: minimize_def split: prod.splits)

lemma denoise_vector_result: "denoise_vector rule v = opt_x (denoise_result rule v)"
  by (simp add: denoise_vector_def denoise_result_def Let_def)

text \<open>
  C7: for every input vector and every update rule, the solver starts at the zero vector of
  the length of the input and makes at most 30 iterations. The call always yields a result
  record, which \<^verbatim>\<open>denoise_vector\<close> does not inspect for success: when the solver has
  not converged, the cap of 30 iterations was reached, and the vector is returned all the
  same. The vector returned is one of the iterates visited, of least cost among them.
\<close>

theorem denoise_vector_capped:
  "hd (denoise_trajectory rule v) = replicate (length v) 0
   \<and> length (denoise_trajectory rule v) \<le> 31
   \<and> nit (denoise_result rule v) = length (denoise_trajectory rule v) - 1
   \<and> nit (denoise_result rule v) \<le> 30
   \<and> (\<not> success (denoise_result rule v) \<longrightarrow> nit (denoise_result rule v) = 30)
   \<and> denoise_vector rule v = opt_x (denoise_result rule v)
   \<and> denoise_vector rule v \<in> set (denoise_trajectory rule v)
   \<and> (\<forall>y \<in> set (denoise_trajectory rule v).
        cost_function_factory v (denoise_vector rule v) \<le> cost_function_factory v y)"
proof -
  let ?f = "cost_function_factory v" and ?g = "gradient_factory v" and ?z = "zeros_like v"
  let ?t = "trajectory rule ?f ?z ?g 30"
  have t: "denoise_trajectory rule v = ?t"
    by (simp add: denoise_trajectory_def)
  from trajectory_start [of rule ?f ?z ?g 30] obtain later where
    l: "?t = ?z # later" "length later \<le> 30"
    by blast
  have 1: "hd ?t = replicate (length v) 0"
    using l(1) by (simp add: zeros_like_def)
  have 2: "length ?t \<le> 31"
    using l by simp
  have 3: "nit (denoise_result rule v) = length ?t - 1"
    by (simp add: denoise_result_def minimize_nit)
  have 4: "nit (denoise_result rule v) \<le> 30"
    using 3 l by simp
  have 5: "nit (denoise_result rule v) = 30" if "\<not> success (denoise_result rule v)"
  proof -
    from that have "\<not> snd (iterate rule ?f ?g 30 [] ?z)"
      by (simp add: denoise_result_def minimize_success)
    from iterate_cap_reached [OF this] have "length ?t = 31"
      by (simp add: trajectory_def)
    with 3 show ?thesis by simp
  qed
  have 6: "denoise_vector rule v \<in> set ?t"
    by (rule denoise_vector_mem)
  have 7: "?f (denoise_vector rule v) \<le> ?f y" if "y \<in> set ?t" for y
    unfolding denoise_vector_eq using that by (rule best_iterate_le)
  from 1 2 3 4 5 6 7 denoise_vector_result [of rule v] show ?thesis
    unfolding t by blast
qed

theorem denoise_vector_capped_witness:
  "[1] \<in> set (denoise_trajectory (\<lambda>f jac visited. if length visited < 2 then Some (\<lambda>i. 1) else None) [1])
   \<and> cost_function_factory [1]
        (denoise_vector (\<lambda>f jac visited. if length visited < 2 then Some (\<lambda>i. 1) else None) [1])
       \<le> cost_function_factory [1] [1]"
proof -
  define rule :: update_rule where
    "rule = (\<lambda>f jac visited. if length visited < 2 then Some (\<lambda>i. 1) else None)"
  have "iterate rule f jac (Suc (Suc k)) [] [0] = ([[0], [1]], True)" for f jac k
    by (simp add: rule_def advance_def)
  from this [of _ _ 28] have "denoise_trajectory rule [1] = [[0], [1]]"
    by (simp add: denoise_trajectory_def trajectory_def zeros_like_def eval_nat_numeral)
  then have m: "[1] \<in> set (denoise_trajectory rule [1])"
    by simp
  with denoise_vector_capped [of rule "[1]"] have
    "cost_function_factory [1] (denoise_vector rule [1]) \<le> cost_function_factory [1] [1]"
    by blast
  with m show ?thesis
    unfolding rule_def by simp
qed

end
